theory Spec2Isabelle
  imports Main "HOL-Library.AList"
begin

section \<open>Strings\<close>

text \<open>
  A Go string is a sequence of bytes; it is modelled as a \<^typ>\<open>string\<close>, one
  \<^typ>\<open>char\<close> per byte. The functions of package \<^verbatim>\<open>strings\<close> that the
  translation service calls are written out below.
\<close>

text \<open>\<^verbatim>\<open>strings.HasPrefix(s, sub)\<close>\<close>

definition HasPrefix :: "string \<Rightarrow> string \<Rightarrow> bool" where
  "HasPrefix s sub = (take (length sub) s = sub)"

text \<open>\<^verbatim>\<open>strings.Contains(s, sub)\<close>: \<open>sub\<close> occurs in \<open>s\<close> at some offset.\<close>

fun Contains :: "string \<Rightarrow> string \<Rightarrow> bool" where
  "Contains [] sub = (sub = [])"
| "Contains (c # cs) sub = (HasPrefix (c # cs) sub \<or> Contains cs sub)"

text \<open>
  \<^verbatim>\<open>strings.Replace(s, old, new, 1)\<close>: the first (leftmost) occurrence of \<open>old\<close> in
  \<open>s\<close> is replaced by \<open>new\<close>; \<open>s\<close> is returned unchanged when there is none.
\<close>

fun Replace1 :: "string \<Rightarrow> string \<Rightarrow> string \<Rightarrow> string" where
  "Replace1 [] old new = (if old = [] then new else [])"
| "Replace1 (c # cs) old new =
     (if HasPrefix (c # cs) old then new @ drop (length old) (c # cs)
      else c # Replace1 cs old new)"

text \<open>
  \<^verbatim>\<open>strings.TrimSpace\<close>, on the ASCII white space characters (tab, line feed,
  vertical tab, form feed, carriage return, space). Go also strips the multi-byte
  Unicode white space; those code points are left in place here.
\<close>

definition isSpace :: "char \<Rightarrow> bool" where
  "isSpace c = (c \<in> set [CHR 0x09, CHR 0x0A, CHR 0x0B, CHR 0x0C, CHR 0x0D, CHR '' ''])"

definition TrimSpace :: "string \<Rightarrow> string" where
  "TrimSpace s = rev (dropWhile isSpace (rev (dropWhile isSpace s)))"

section \<open>Placeholder tokens\<close>

text \<open>
  \<^verbatim>\<open>regexp.MustCompile(`\[([^\]]+)\]`).FindAllStringSubmatch(text, -1)\<close>: the
  leftmost, non-overlapping matches of an opening bracket, one or more bytes other than
  the closing bracket, and a closing bracket. A match at an opening bracket exists exactly
  when the next byte is not the closing bracket and a closing bracket follows somewhere; it
  then ends at the first closing bracket. Each match is returned as the pair of the whole
  match (\<^verbatim>\<open>match[0]\<close>) and the captured group (\<^verbatim>\<open>match[1]\<close>).
\<close>

function FindAllStringSubmatch :: "string \<Rightarrow> (string \<times> string) list" where
  "FindAllStringSubmatch [] = []"
| "FindAllStringSubmatch (c # cs) =
     (if c = CHR ''[''
      then (let group = takeWhile (\<lambda>x. x \<noteq> CHR '']'') cs;
                rest = dropWhile (\<lambda>x. x \<noteq> CHR '']'') cs
            in if group \<noteq> [] \<and> rest \<noteq> []
               then (CHR ''['' # group @ [CHR '']''], group) # FindAllStringSubmatch (tl rest)
               else FindAllStringSubmatch cs)
      else FindAllStringSubmatch cs)"
  by pat_completeness auto
termination
proof (relation "measure length")
  fix c :: char and cs group rest
  assume "rest = dropWhile (\<lambda>x. x \<noteq> CHR '']'') cs"
  then have "length rest \<le> length cs"
    by (simp add: length_dropWhile_le)
  then show "(tl rest, c # cs) \<in> measure length"
    by simp
qed simp_all

text \<open>\<^verbatim>\<open>ExtractTemplateValues\<close>: the captured group of every match, in order.\<close>

definition ExtractTemplateValues :: "string \<Rightarrow> string list" where
  "ExtractTemplateValues text = map snd (FindAllStringSubmatch text)"

text \<open>
  The loop of \<^verbatim>\<open>PreserveTemplateValues\<close> over the remaining template values, with the
  running index \<open>i\<close> and the running \<open>result\<close>.
\<close>

fun PreserveLoop :: "string list \<Rightarrow> nat \<Rightarrow> string \<Rightarrow> string" where
  "PreserveLoop [] i result = result"
| "PreserveLoop (v # values) i result =
     (let placeholder = CHR ''['' # v @ [CHR '']'']
      in if \<not> Contains result placeholder
         then (let matches = FindAllStringSubmatch result
               in if i < length matches
                  then PreserveLoop values (Suc i) (Replace1 result (fst (matches ! i)) placeholder)
                  else PreserveLoop values (Suc i) result)
         else PreserveLoop values (Suc i) result)"

definition PreserveTemplateValues :: "string \<Rightarrow> string \<Rightarrow> string" where
  "PreserveTemplateValues text translatedText =
     (let templateValues = ExtractTemplateValues text
      in if length templateValues = 0 then translatedText
         else PreserveLoop templateValues 0 translatedText)"

text \<open>
  The restoration step as the specification words it, for comparison: the bracketed token
  at ordinal position \<open>i\<close> of the text, counted along the matches of the pattern from the
  left, is replaced by the placeholder.
\<close>

function spec_replace_match :: "nat \<Rightarrow> string \<Rightarrow> string \<Rightarrow> string" where
  "spec_replace_match i [] placeholder = []"
| "spec_replace_match i (c # cs) placeholder =
     (if c = CHR ''[''
      then (let group = takeWhile (\<lambda>x. x \<noteq> CHR '']'') cs;
                rest = dropWhile (\<lambda>x. x \<noteq> CHR '']'') cs
            in if group \<noteq> [] \<and> rest \<noteq> []
               then (if i = 0 then placeholder @ tl rest
                     else CHR ''['' # group @ CHR '']'' # spec_replace_match (i - 1) (tl rest) placeholder)
               else c # spec_replace_match i cs placeholder)
      else c # spec_replace_match i cs placeholder)"
  by pat_completeness auto
termination
proof (relation "measure (\<lambda>(i, s, placeholder). length s)")
  fix i :: nat and c :: char and cs group rest placeholder
  assume "rest = dropWhile (\<lambda>x. x \<noteq> CHR '']'') cs"
  then have "length rest \<le> length cs"
    by (simp add: length_dropWhile_le)
  then show "((i - 1, tl rest, placeholder), (i, c # cs, placeholder))
      \<in> measure (\<lambda>(i, s, placeholder). length s)"
    by simp
qed simp_all

fun spec_PreserveLoop :: "string list \<Rightarrow> nat \<Rightarrow> string \<Rightarrow> string" where
  "spec_PreserveLoop [] i result = result"
| "spec_PreserveLoop (v # values) i result =
     (let placeholder = CHR ''['' # v @ [CHR '']'']
      in if \<not> Contains result placeholder
         then spec_PreserveLoop values (Suc i) (spec_replace_match i result placeholder)
         else spec_PreserveLoop values (Suc i) result)"

definition spec_PreserveTemplateValues :: "string \<Rightarrow> string \<Rightarrow> string" where
  "spec_PreserveTemplateValues text translatedText =
     spec_PreserveLoop (ExtractTemplateValues text) 0 translatedText"

section \<open>Errors\<close>

text \<open>
  Go \<^verbatim>\<open>error\<close> values: \<^verbatim>\<open>gorm.ErrRecordNotFound\<close>, any other failure reported by
  the entity store, an error made by \<^verbatim>\<open>fmt.Errorf\<close> from a message, and an error
  wrapped by \<^verbatim>\<open>fmt.Errorf("...: %w", err)\<close>.
\<close>

datatype error = ErrRecordNotFound | ErrStore | Errorf string | Wrapf string error

fun Error :: "error \<Rightarrow> string" where
  "Error ErrRecordNotFound = ''record not found''"
| "Error ErrStore = ''store failure''"
| "Error (Errorf m) = m"
| "Error (Wrapf m e) = m @ '': '' @ Error e"

section \<open>The translation engine\<close>

text \<open>
  What one HTTP exchange with the external engine can come to, as \<^verbatim>\<open>Translate\<close>
  tells the cases apart: the request fails, the status is not 200 (with the body read), the
  body does not decode, or the response decodes to a list of choices (the message content of
  each). The engine is an oracle: its \<open>n\<close>-th exchange, for a text and two languages, has
  some outcome.
\<close>

datatype http_outcome =
    DoError error
  | StatusNotOK string
  | DecodeError error
  | Choices "string list"

type_synonym engine = "nat \<Rightarrow> string \<Rightarrow> string \<Rightarrow> string \<Rightarrow> http_outcome"

record OpenAIService =
  APIKey :: string

text \<open>
  \<^verbatim>\<open>Translate\<close>, with the number of exchanges made so far passed in and returned.
\<close>

definition Translate ::
  "OpenAIService \<Rightarrow> engine \<Rightarrow> nat \<Rightarrow> string \<Rightarrow> string \<Rightarrow> string \<Rightarrow> nat \<times> (error + string)" where
  "Translate s E n text sourceLang targetLang =
     (if APIKey s = [] then (n, Inl (Errorf ''OpenAI API key not configured''))
      else (case E n text sourceLang targetLang of
              DoError err \<Rightarrow> (Suc n, Inl err)
            | StatusNotOK body \<Rightarrow> (Suc n, Inl (Errorf (''OpenAI API error: '' @ body)))
            | DecodeError err \<Rightarrow> (Suc n, Inl err)
            | Choices cs \<Rightarrow>
                (if length cs = 0 then (Suc n, Inl (Errorf ''no translation returned''))
                 else (let translated = TrimSpace (cs ! 0);
                           translated = PreserveTemplateValues text translated
                       in (Suc n, Inr translated)))))"

section \<open>Payloads\<close>

text \<open>
  A payload (\<^verbatim>\<open>models.JSONB\<close>, a \<^verbatim>\<open>map[string]interface{}\<close>) holds decoded JSON. An
  object is kept as the list of its entries; \<^verbatim>\<open>result[key] = v\<close> is
  \<^const>\<open>AList.update\<close>. A Go map has no two entries under one key, and the order in which
  \<^verbatim>\<open>range\<close> visits it is not fixed: here it is the order of the list. Numbers are kept
  as their literal text.
\<close>

datatype json =
    JString string
  | JObject "(string \<times> json) list"
  | JArray "json list"
  | JNumber string
  | JBool bool
  | JNull

type_synonym JSONB = "(string \<times> json) list"

text \<open>
  The loop of \<^verbatim>\<open>TranslateJSON\<close> over the entries still to visit, with the \<open>result\<close>
  built so far; the recursive call on a nested object starts from an empty \<open>result\<close>.
\<close>

function (sequential) TranslateJSON_loop ::
  "OpenAIService \<Rightarrow> engine \<Rightarrow> nat \<Rightarrow> JSONB \<Rightarrow> JSONB \<Rightarrow> string \<Rightarrow> string \<Rightarrow> nat \<times> (error + JSONB)" where
  "TranslateJSON_loop s E n [] result sourceLang targetLang = (n, Inr result)"
| "TranslateJSON_loop s E n ((key, JString v) # rest) result sourceLang targetLang =
     (case Translate s E n v sourceLang targetLang of
        (n', Inl err) \<Rightarrow> (n', Inl (Wrapf (''error translating key '' @ key) err))
      | (n', Inr translated) \<Rightarrow>
          TranslateJSON_loop s E n' rest (AList.update key (JString translated) result)
            sourceLang targetLang)"
| "TranslateJSON_loop s E n ((key, JObject v) # rest) result sourceLang targetLang =
     (case TranslateJSON_loop s E n v [] sourceLang targetLang of
        (n', Inl err) \<Rightarrow> (n', Inl err)
      | (n', Inr translated) \<Rightarrow>
          TranslateJSON_loop s E n' rest (AList.update key (JObject translated) result)
            sourceLang targetLang)"
| "TranslateJSON_loop s E n ((key, v) # rest) result sourceLang targetLang =
     TranslateJSON_loop s E n rest (AList.update key v result) sourceLang targetLang"
  by pat_completeness auto
termination
  by (relation "measure (\<lambda>(s, E, n, entries, result, sourceLang, targetLang).
        size_list (size_prod (\<lambda>_. 0) size) entries)") auto

definition TranslateJSON ::
  "OpenAIService \<Rightarrow> engine \<Rightarrow> nat \<Rightarrow> JSONB \<Rightarrow> string \<Rightarrow> string \<Rightarrow> nat \<times> (error + JSONB)" where
  "TranslateJSON s E n data sourceLang targetLang =
     TranslateJSON_loop s E n data [] sourceLang targetLang"

text \<open>
  The keys of a payload at every nesting level: a string leaf, an object with the key tree
  of each entry, or any other value (kept whole, with whatever objects it holds).
  \<open>distinct_keys\<close> says that the list of entries stands for a Go map: no object, at any
  level, has two entries under one key.
\<close>

datatype key_tree =
    Leaf
  | Keys "(string \<times> key_tree) list"
  | Kept json

function keys_of :: "JSONB \<Rightarrow> (string \<times> key_tree) list" where
  "keys_of [] = []"
| "keys_of ((key, JString v) # rest) = (key, Leaf) # keys_of rest"
| "keys_of ((key, JObject v) # rest) = (key, Keys (keys_of v)) # keys_of rest"
| "keys_of ((key, JArray v) # rest) = (key, Kept (JArray v)) # keys_of rest"
| "keys_of ((key, JNumber v) # rest) = (key, Kept (JNumber v)) # keys_of rest"
| "keys_of ((key, JBool v) # rest) = (key, Kept (JBool v)) # keys_of rest"
| "keys_of ((key, JNull) # rest) = (key, Kept JNull) # keys_of rest"
  by pat_completeness auto
termination
  by (relation "measure (size_list (size_prod (\<lambda>_. 0) size))") auto

function distinct_keys :: "JSONB \<Rightarrow> bool" where
  "distinct_keys [] = True"
| "distinct_keys ((key, JObject v) # rest) =
     (key \<notin> set (map fst rest) \<and> distinct_keys v \<and> distinct_keys rest)"
| "distinct_keys ((key, JString v) # rest) = (key \<notin> set (map fst rest) \<and> distinct_keys rest)"
| "distinct_keys ((key, JArray v) # rest) = (key \<notin> set (map fst rest) \<and> distinct_keys rest)"
| "distinct_keys ((key, JNumber v) # rest) = (key \<notin> set (map fst rest) \<and> distinct_keys rest)"
| "distinct_keys ((key, JBool v) # rest) = (key \<notin> set (map fst rest) \<and> distinct_keys rest)"
| "distinct_keys ((key, JNull) # rest) = (key \<notin> set (map fst rest) \<and> distinct_keys rest)"
  by pat_completeness auto
termination
  by (relation "measure (size_list (size_prod (\<lambda>_. 0) size))") auto

section \<open>Identifiers\<close>

text \<open>
  A \<^verbatim>\<open>uuid.UUID\<close> is a 128-bit value; \<^verbatim>\<open>uuid.Nil\<close> is zero. \<^verbatim>\<open>String()\<close> gives
  the canonical text, 32 hexadecimal digits in groups of 8, 4, 4, 4 and 12. \<^verbatim>\<open>uuid.New()\<close>
  draws a random value, taken never to collide: here it is a value above every identifier in
  use.
\<close>

type_synonym uuid = nat

definition uuid_Nil :: uuid where
  "uuid_Nil = 0"

fun hex :: "nat \<Rightarrow> nat \<Rightarrow> string" where
  "hex 0 n = []"
| "hex (Suc k) n = hex k (n div 16) @ [''0123456789abcdef'' ! (n mod 16)]"

definition uuid_String :: "uuid \<Rightarrow> string" where
  "uuid_String u =
     hex 8 (u div 16 ^ 24) @ ''-'' @ hex 4 (u div 16 ^ 20) @ ''-'' @ hex 4 (u div 16 ^ 16) @ ''-''
       @ hex 4 (u div 16 ^ 12) @ ''-'' @ hex 12 u"

definition uuid_New :: "uuid list \<Rightarrow> uuid" where
  "uuid_New used = Suc (fold max used 0)"

section \<open>Rows\<close>

text \<open>
  The fields of \<^verbatim>\<open>models.TranslationVersion\<close>, \<^verbatim>\<open>models.Component\<close> and
  \<^verbatim>\<open>models.Application\<close> that the translation paths read or write. Time stamps are left
  out. A table holds the rows a query can see: a row whose \<^verbatim>\<open>DeletedAt\<close> is set is seen
  by no query of these models, so deleting a row takes it out of the table.
\<close>

record TranslationVersion =
  ID :: uuid
  ComponentID :: uuid
  Locale :: string
  Stage :: string
  Version :: int
  Data :: JSONB
  IsActive :: bool
  CreatedBy :: uuid
  UpdatedBy :: uuid

record Component =
  component_ID :: uuid
  ApplicationID :: uuid
  Code :: string

record Application =
  application_ID :: uuid
  OpenAIKey :: string

text \<open>The zero value of the struct, what \<^verbatim>\<open>var existing models.TranslationVersion\<close> holds.\<close>

definition zero_TranslationVersion :: TranslationVersion where
  "zero_TranslationVersion =
     \<lparr>ID = uuid_Nil, ComponentID = uuid_Nil, Locale = [], Stage = [], Version = 0, Data = [],
      IsActive = False, CreatedBy = uuid_Nil, UpdatedBy = uuid_Nil\<rparr>"

section \<open>The world: entity store, cache, engine\<close>

text \<open>
  The state the service works on. The tables list their rows in primary-key order, the
  order in which \<^verbatim>\<open>First\<close> looks for a row. Every operation on the entity store takes one
  tick of \<open>clock\<close>; the store is fallible, and \<open>db_fails n\<close> tells whether the operation
  issued at tick \<open>n\<close> fails. The cache maps a key to the translation stored under it; it is
  taken to be reachable, and its entries not to expire while a call runs (a failing
  \<^verbatim>\<open>cache.Get\<close> is the same branch as a miss in every caller, and the results of
  \<^verbatim>\<open>cache.Set\<close> and \<^verbatim>\<open>cache.Delete\<close> are ignored by every caller). \<open>calls\<close> counts
  the exchanges made with \<open>engine\<close>; \<open>default_key\<close> is the environment's
  \<^verbatim>\<open>OPENAI_API_KEY\<close>.
\<close>

record world =
  translation_versions :: "TranslationVersion list"
  components :: "Component list"
  applications :: "Application list"
  cache :: "string \<rightharpoonup> TranslationVersion"
  db_fails :: "nat \<Rightarrow> bool"
  clock :: nat
  engine :: engine
  calls :: nat
  default_key :: string

definition db_fault :: "world \<Rightarrow> bool" where
  "db_fault w = db_fails w (clock w)"

definition tick :: "world \<Rightarrow> world" where
  "tick w = w\<lparr>clock := Suc (clock w)\<rparr>"

subsection \<open>Cache\<close>

definition ComponentKey :: "string \<Rightarrow> string" where
  "ComponentKey componentID = ''component:'' @ componentID"

definition TranslationKey :: "string \<Rightarrow> string \<Rightarrow> string \<Rightarrow> string" where
  "TranslationKey componentID locale stage =
     ''translation:'' @ componentID @ '':'' @ locale @ '':'' @ stage"

definition cache_Get :: "world \<Rightarrow> string \<Rightarrow> TranslationVersion option" where
  "cache_Get w key = cache w key"

definition cache_Set :: "world \<Rightarrow> string \<Rightarrow> TranslationVersion \<Rightarrow> world" where
  "cache_Set w key v = w\<lparr>cache := (cache w)(key \<mapsto> v)\<rparr>"

definition cache_Delete :: "world \<Rightarrow> string \<Rightarrow> world" where
  "cache_Delete w key = w\<lparr>cache := (cache w)(key := None)\<rparr>"

subsection \<open>Entity store\<close>

text \<open>
  \<^verbatim>\<open>DB.Where(...).First(&dest)\<close> on a table: the first row that satisfies the
  condition, \<^const>\<open>ErrRecordNotFound\<close> when there is none.
\<close>

definition db_First :: "'a list \<Rightarrow> ('a \<Rightarrow> bool) \<Rightarrow> world \<Rightarrow> world \<times> (error + 'a)" where
  "db_First rows cond w =
     (tick w,
      if db_fault w then Inl ErrStore
      else (case find cond rows of None \<Rightarrow> Inl ErrRecordNotFound | Some r \<Rightarrow> Inr r))"

text \<open>\<^verbatim>\<open>DB.Where(...).Find(&dest)\<close>: every row that satisfies the condition.\<close>

definition db_Find :: "'a list \<Rightarrow> ('a \<Rightarrow> bool) \<Rightarrow> world \<Rightarrow> world \<times> (error + 'a list)" where
  "db_Find rows cond w =
     (tick w, if db_fault w then Inl ErrStore else Inr (filter cond rows))"

text \<open>
  \<^verbatim>\<open>DB.Create(&row)\<close> on the translation table. The \<^verbatim>\<open>BeforeCreate\<close> hook gives a
  row without identifier a new one; a zero \<^verbatim>\<open>Version\<close> or \<^verbatim>\<open>IsActive\<close> takes the
  default of its column tag (\<^verbatim>\<open>default:1\<close>, \<^verbatim>\<open>default:true\<close>); a row whose identifier
  is taken violates the primary key. The row as stored is written back to the caller's
  struct.
\<close>

definition BeforeCreate :: "uuid list \<Rightarrow> TranslationVersion \<Rightarrow> TranslationVersion" where
  "BeforeCreate used tv = (if ID tv = uuid_Nil then tv\<lparr>ID := uuid_New used\<rparr> else tv)"

definition column_defaults :: "TranslationVersion \<Rightarrow> TranslationVersion" where
  "column_defaults tv =
     tv\<lparr>Version := (if Version tv = 0 then 1 else Version tv), IsActive := True\<rparr>"

definition db_Create :: "TranslationVersion \<Rightarrow> world \<Rightarrow> world \<times> (error + TranslationVersion)" where
  "db_Create tv w =
     (let rows = translation_versions w;
          row = column_defaults (BeforeCreate (map ID rows) tv)
      in if db_fault w \<or> ID row \<in> set (map ID rows) then (tick w, Inl ErrStore)
         else (tick (w\<lparr>translation_versions := rows @ [row]\<rparr>), Inr row))"

text \<open>
  \<^verbatim>\<open>DB.Save(&row)\<close>: a row without identifier is created; otherwise every field of
  the row with that identifier is overwritten, and the row is inserted when there is none.
\<close>

definition db_Save :: "TranslationVersion \<Rightarrow> world \<Rightarrow> world \<times> (error + TranslationVersion)" where
  "db_Save tv w =
     (let rows = translation_versions w
      in if ID tv = uuid_Nil then db_Create tv w
         else if db_fault w then (tick w, Inl ErrStore)
         else if ID tv \<in> set (map ID rows)
         then (tick (w\<lparr>translation_versions := map (\<lambda>r. if ID r = ID tv then tv else r) rows\<rparr>),
               Inr tv)
         else (tick (w\<lparr>translation_versions := rows @ [tv]\<rparr>), Inr tv))"

text \<open>\<^verbatim>\<open>database.CleanupOldVersions\<close>: delete the rows with a version above 2.\<close>

definition CleanupOldVersions :: "world \<Rightarrow> world \<times> error option" where
  "CleanupOldVersions w =
     (if db_fault w then (tick w, Some ErrStore)
      else (tick (w\<lparr>translation_versions := filter (\<lambda>r. \<not> Version r > 2) (translation_versions w)\<rparr>),
            None))"

text \<open>
  Two conditions on the store that the properties below are stated under. \<open>quiet w t\<close>: no
  store operation issued from the present tick of \<open>w\<close> up to (not including) tick \<open>t\<close>
  fails; \<open>healthy w\<close>: none fails from now on. \<open>primary_keys_ok\<close>: the identifiers of
  the translation rows are distinct and set, as the \<^verbatim>\<open>primary_key\<close> constraint of the
  column has it.
\<close>

definition quiet :: "world \<Rightarrow> nat \<Rightarrow> bool" where
  "quiet w t = (\<forall>n. clock w \<le> n \<and> n < t \<longrightarrow> \<not> db_fails w n)"

definition healthy :: "world \<Rightarrow> bool" where
  "healthy w = (\<forall>t. quiet w t)"

definition primary_keys_ok :: "TranslationVersion list \<Rightarrow> bool" where
  "primary_keys_ok rows = (distinct (map ID rows) \<and> uuid_Nil \<notin> set (map ID rows))"

text \<open>
  What the writes of the service maintain, whether or not the store fails: proper primary
  keys, and no row with \<^verbatim>\<open>is_active\<close> cleared (every row is created active, and no
  path of the service clears the flag).
\<close>

definition store_invariant :: "world \<Rightarrow> bool" where
  "store_invariant w =
     (primary_keys_ok (translation_versions w) \<and> (\<forall>r \<in> set (translation_versions w). IsActive r))"

section \<open>The translation service\<close>

text \<open>
  The \<^verbatim>\<open>Where\<close> conditions of the service: a key and a version, with and without the
  test on \<^verbatim>\<open>is_active\<close>.
\<close>

definition key_version :: "uuid \<Rightarrow> string \<Rightarrow> string \<Rightarrow> int \<Rightarrow> TranslationVersion \<Rightarrow> bool" where
  "key_version componentID locale stage v r =
     (ComponentID r = componentID \<and> Locale r = locale \<and> Stage r = stage \<and> Version r = v)"

definition active_key_version ::
  "uuid \<Rightarrow> string \<Rightarrow> string \<Rightarrow> int \<Rightarrow> TranslationVersion \<Rightarrow> bool" where
  "active_key_version componentID locale stage v r =
     (ComponentID r = componentID \<and> Locale r = locale \<and> Stage r = stage \<and> IsActive r = True
      \<and> Version r = v)"

definition active_in_version ::
  "uuid list \<Rightarrow> string \<Rightarrow> string \<Rightarrow> int \<Rightarrow> TranslationVersion \<Rightarrow> bool" where
  "active_in_version componentIDs locale stage v r =
     (ComponentID r \<in> set componentIDs \<and> Locale r = locale \<and> Stage r = stage
      \<and> IsActive r = True \<and> Version r = v)"

text \<open>The rows of a key, whatever their version.\<close>

definition same_key :: "uuid \<Rightarrow> string \<Rightarrow> string \<Rightarrow> TranslationVersion \<Rightarrow> bool" where
  "same_key componentID locale stage r =
     (ComponentID r = componentID \<and> Locale r = locale \<and> Stage r = stage)"

text \<open>\<^verbatim>\<open>GetTranslation\<close>\<close>

definition GetTranslation ::
  "world \<Rightarrow> uuid \<Rightarrow> string \<Rightarrow> string \<Rightarrow> world \<times> (error + TranslationVersion)" where
  "GetTranslation w componentID locale stage =
     (let cacheKey = TranslationKey (uuid_String componentID) locale stage
      in case cache_Get w cacheKey of
           Some cached \<Rightarrow> (w, Inr cached)
         | None \<Rightarrow>
             (let (w1, result) =
                    db_First (translation_versions w)
                      (active_key_version componentID locale stage 2) w;
                  (w2, result) =
                    (if result = Inl ErrRecordNotFound
                     then db_First (translation_versions w1)
                            (active_key_version componentID locale stage 1) w1
                     else (w1, result))
              in case result of
                   Inl err \<Rightarrow> (w2, Inl err)
                 | Inr translation \<Rightarrow> (cache_Set w2 cacheKey translation, Inr translation)))"

text \<open>
  \<^verbatim>\<open>GetMultipleTranslations\<close>: the first pass over the requested components, and the
  loop that files the rows of a query into the result and the cache.
\<close>

fun cache_pass ::
  "world \<Rightarrow> uuid list \<Rightarrow> string \<Rightarrow> string \<Rightarrow> (string \<rightharpoonup> TranslationVersion) \<Rightarrow> uuid list
   \<Rightarrow> (string \<rightharpoonup> TranslationVersion) \<times> uuid list" where
  "cache_pass w [] locale stage results missingFromCache = (results, missingFromCache)"
| "cache_pass w (componentID # componentIDs) locale stage results missingFromCache =
     (case cache_Get w (TranslationKey (uuid_String componentID) locale stage) of
        Some cached \<Rightarrow>
          cache_pass w componentIDs locale stage
            (results(uuid_String componentID \<mapsto> cached)) missingFromCache
      | None \<Rightarrow>
          cache_pass w componentIDs locale stage results (missingFromCache @ [componentID]))"

fun file_rows ::
  "world \<Rightarrow> TranslationVersion list \<Rightarrow> string \<Rightarrow> string \<Rightarrow> (string \<rightharpoonup> TranslationVersion)
   \<Rightarrow> world \<times> (string \<rightharpoonup> TranslationVersion)" where
  "file_rows w [] locale stage results = (w, results)"
| "file_rows w (translation # translations) locale stage results =
     file_rows
       (cache_Set w (TranslationKey (uuid_String (ComponentID translation)) locale stage) translation)
       translations locale stage
       (results(uuid_String (ComponentID translation) \<mapsto> translation))"

definition GetMultipleTranslations ::
  "world \<Rightarrow> uuid list \<Rightarrow> string \<Rightarrow> string
   \<Rightarrow> world \<times> (error + (string \<rightharpoonup> TranslationVersion))" where
  "GetMultipleTranslations w componentIDs locale stage =
     (let (results, missingFromCache) = cache_pass w componentIDs locale stage Map.empty []
      in if length missingFromCache > 0
         then (case db_Find (translation_versions w)
                      (active_in_version missingFromCache locale stage 2) w of
                 (w1, Inl err) \<Rightarrow> (w1, Inr results)
               | (w1, Inr translations) \<Rightarrow>
                   (let (w2, results) = file_rows w1 translations locale stage results;
                        foundIDs = set (map (\<lambda>t. uuid_String (ComponentID t)) translations);
                        stillMissing = filter (\<lambda>id. uuid_String id \<notin> foundIDs) missingFromCache
                    in if length stillMissing > 0
                       then (let (w3, found) =
                                   db_Find (translation_versions w2)
                                     (active_in_version stillMissing locale stage 1) w2;
                                 version1Translations =
                                   (case found of Inl err \<Rightarrow> [] | Inr rows \<Rightarrow> rows);
                                 (w4, results) =
                                   file_rows w3 version1Translations locale stage results
                             in (w4, Inr results))
                       else (w2, Inr results)))
         else (w, Inr results))"

text \<open>\<^verbatim>\<open>SaveTranslation\<close>\<close>

definition SaveTranslation ::
  "world \<Rightarrow> uuid \<Rightarrow> string \<Rightarrow> string \<Rightarrow> JSONB \<Rightarrow> uuid \<Rightarrow> world \<times> (error + TranslationVersion)" where
  "SaveTranslation w componentID locale stage data userID =
     (let (w1, result) =
            db_First (translation_versions w) (key_version componentID locale stage 2) w;
          (w2, saved) =
            (if result = Inl ErrRecordNotFound
             then db_Create
                    \<lparr>ID = uuid_Nil, ComponentID = componentID, Locale = locale, Stage = stage,
                     Version = 2, Data = data, IsActive = True, CreatedBy = userID,
                     UpdatedBy = userID\<rparr> w1
             else db_Save
                    ((case result of Inl err \<Rightarrow> zero_TranslationVersion | Inr found \<Rightarrow> found)
                       \<lparr>Data := data, UpdatedBy := userID\<rparr>) w1)
      in case saved of
           Inl err \<Rightarrow> (w2, Inl err)
         | Inr existing \<Rightarrow>
             (let (w3, result) =
                    db_First (translation_versions w2) (key_version componentID locale stage 1) w2;
                  w4 = (if result = Inl ErrRecordNotFound
                        then fst (db_Create
                                    \<lparr>ID = uuid_Nil, ComponentID = componentID, Locale = locale,
                                     Stage = stage, Version = 1, Data = data, IsActive = True,
                                     CreatedBy = uuid_Nil, UpdatedBy = uuid_Nil\<rparr> w3)
                        else w3);
                  w5 = cache_Delete w4 (TranslationKey (uuid_String componentID) locale stage);
                  w6 = cache_Delete w5 (ComponentKey (uuid_String componentID));
                  w7 = fst (CleanupOldVersions w6)
              in (w7, Inr existing)))"

text \<open>\<^verbatim>\<open>RevertTranslation\<close>; the result is the error, \<open>None\<close> for \<^verbatim>\<open>nil\<close>.\<close>

definition RevertTranslation ::
  "world \<Rightarrow> uuid \<Rightarrow> string \<Rightarrow> string \<Rightarrow> world \<times> error option" where
  "RevertTranslation w componentID locale stage =
     (case db_First (translation_versions w) (key_version componentID locale stage 1) w of
        (w1, Inl err) \<Rightarrow> (w1, Some (Wrapf ''no previous version found'' err))
      | (w1, Inr version1) \<Rightarrow>
          (let (w2, result) =
                 db_First (translation_versions w1) (key_version componentID locale stage 2) w1
           in if result = Inl ErrRecordNotFound
              then (case db_Create
                           \<lparr>ID = uuid_Nil, ComponentID = componentID, Locale = locale,
                            Stage = stage, Version = 2, Data = Data version1, IsActive = True,
                            CreatedBy = uuid_Nil, UpdatedBy = uuid_Nil\<rparr> w2 of
                      (w3, Inl err) \<Rightarrow> (w3, Some err)
                    | (w3, Inr created) \<Rightarrow> (w3, None))
              else (case db_Save
                           ((case result of Inl err \<Rightarrow> zero_TranslationVersion | Inr found \<Rightarrow> found)
                              \<lparr>Data := Data version1\<rparr>) w2 of
                      (w3, Inl err) \<Rightarrow> (w3, Some err)
                    | (w3, Inr saved) \<Rightarrow>
                        (cache_Delete w3 (TranslationKey (uuid_String componentID) locale stage),
                         None))))"

text \<open>
  A component has a translation for a locale and a stage when the cache holds an entry
  under its key or the store holds an active row of the key in version 2 or in version 1.
\<close>

definition has_translation :: "world \<Rightarrow> uuid \<Rightarrow> string \<Rightarrow> string \<Rightarrow> bool" where
  "has_translation w componentID locale stage =
     (cache w (TranslationKey (uuid_String componentID) locale stage) \<noteq> None
      \<or> find (active_key_version componentID locale stage 2) (translation_versions w) \<noteq> None
      \<or> find (active_key_version componentID locale stage 1) (translation_versions w) \<noteq> None)"

section \<open>The backfill handler\<close>

text \<open>
  The JSON responses of the handler: a status with an \<^verbatim>\<open>error\<close> message, or a status
  with the list of saved translations.
\<close>

datatype response =
    ErrorJSON nat string
  | ResultsJSON nat "TranslationVersion list"

record BackfillRequest =
  SourceLocale :: string
  TargetLocales :: "string list"
  Stage_of :: string

text \<open>
  The loop of \<^verbatim>\<open>BackfillTranslations\<close> over the target locales still to do, with the
  \<open>results\<close> gathered so far.
\<close>

fun BackfillLoop ::
  "world \<Rightarrow> OpenAIService \<Rightarrow> JSONB \<Rightarrow> uuid \<Rightarrow> string \<Rightarrow> string \<Rightarrow> uuid \<Rightarrow> string list
   \<Rightarrow> TranslationVersion list \<Rightarrow> world \<times> response" where
  "BackfillLoop w openAIService sourceData componentID sourceLocale stage userID [] results =
     (w, ResultsJSON 200 results)"
| "BackfillLoop w openAIService sourceData componentID sourceLocale stage userID
     (targetLocale # targetLocales) results =
     (case TranslateJSON openAIService (engine w) (calls w) sourceData sourceLocale targetLocale of
        (n, Inl err) \<Rightarrow>
          (w\<lparr>calls := n\<rparr>,
           ErrorJSON 500 (''Failed to translate to '' @ targetLocale @ '': '' @ Error err))
      | (n, Inr translatedData) \<Rightarrow>
          (case SaveTranslation (w\<lparr>calls := n\<rparr>) componentID targetLocale stage translatedData
                  userID of
             (w', Inl err) \<Rightarrow>
               (w', ErrorJSON 500 (''Failed to save translation for '' @ targetLocale))
           | (w', Inr translation) \<Rightarrow>
               BackfillLoop w' openAIService sourceData componentID sourceLocale stage userID
                 targetLocales (results @ [translation])))"

text \<open>
  \<^verbatim>\<open>BackfillTranslations\<close>, from the point where the component identifier of the path and
  the request body have been parsed; \<open>userID\<close> is the user of the request context. The
  handler first loads the component, its application and the source translation and sets up
  the engine's service (\<open>BackfillSource\<close>: the response in case one of them is missing), and
  then runs the loop.
\<close>

definition BackfillSource ::
  "world \<Rightarrow> uuid \<Rightarrow> BackfillRequest \<Rightarrow> world \<times> (response + OpenAIService \<times> TranslationVersion)" where
  "BackfillSource w componentID req =
     (case db_First (components w) (\<lambda>c. component_ID c = componentID) w of
        (w1, Inl err) \<Rightarrow> (w1, Inl (ErrorJSON 404 ''Component not found''))
      | (w1, Inr component) \<Rightarrow>
          (case db_First (applications w1) (\<lambda>a. application_ID a = ApplicationID component) w1 of
             (w2, Inl err) \<Rightarrow> (w2, Inl (ErrorJSON 404 ''Application not found''))
           | (w2, Inr application) \<Rightarrow>
               (case GetTranslation w2 componentID (SourceLocale req) (Stage_of req) of
                  (w3, Inl err) \<Rightarrow> (w3, Inl (ErrorJSON 404 ''Source translation not found''))
                | (w3, Inr sourceTranslation) \<Rightarrow>
                    (let openAIService =
                           (if OpenAIKey application = []
                            then \<lparr>APIKey = default_key w3\<rparr>
                            else \<lparr>APIKey = OpenAIKey application\<rparr>)
                     in (w3, Inr (openAIService, sourceTranslation))))))"

definition BackfillTranslations ::
  "world \<Rightarrow> uuid \<Rightarrow> BackfillRequest \<Rightarrow> uuid \<Rightarrow> world \<times> response" where
  "BackfillTranslations w componentID req userID =
     (case BackfillSource w componentID req of
        (w3, Inl failure) \<Rightarrow> (w3, failure)
      | (w3, Inr (openAIService, sourceTranslation)) \<Rightarrow>
          BackfillLoop w3 openAIService (Data sourceTranslation) componentID
            (SourceLocale req) (Stage_of req) userID (TargetLocales req) [])"

section \<open>An example world\<close>

text \<open>
  A store with one component of one application, and the English draft of the component
  in both versions; an empty cache; a store that never fails; an engine that answers every
  request with the text bracketed by the target language, except that it refuses requests
  for Spanish.
\<close>

definition example_rows :: "TranslationVersion list" where
  "example_rows =
     [\<lparr>ID = 1, ComponentID = 7, Locale = ''en'', Stage = ''draft'', Version = 2,
       Data = [(''title'', JString ''Hi [name]!'')], IsActive = True, CreatedBy = 9,
       UpdatedBy = 9\<rparr>,
      \<lparr>ID = 2, ComponentID = 7, Locale = ''en'', Stage = ''draft'', Version = 1,
       Data = [(''title'', JString ''Hi [name]!'')], IsActive = True, CreatedBy = 0,
       UpdatedBy = 0\<rparr>]"

definition example_engine :: engine where
  "example_engine n text sourceLang targetLang =
     (if targetLang = ''es'' then StatusNotOK ''quota exceeded''
      else Choices [targetLang @ '': '' @ text])"

definition example_world :: world where
  "example_world =
     \<lparr>translation_versions = example_rows,
      components = [\<lparr>component_ID = 7, ApplicationID = 3, Code = ''pdp_form''\<rparr>],
      applications = [\<lparr>application_ID = 3, OpenAIKey = ''sk''\<rparr>],
      cache = Map.empty, db_fails = (\<lambda>n. False), clock = 0, engine = example_engine,
      calls = 0, default_key = []\<rparr>"

section \<open>Properties of the placeholder functions\<close>

text \<open>
  Every match of the pattern is an opening bracket, a captured group and a closing bracket;
  the group is not empty and holds no closing bracket.
\<close>

lemma FindAll_shape:
  "m \<in> set (FindAllStringSubmatch s) \<Longrightarrow>
     fst m = CHR ''['' # snd m @ [CHR '']''] \<and> snd m \<noteq> [] \<and> CHR '']'' \<notin> set (snd m)"
proof (induction s rule: FindAllStringSubmatch.induct)
  case 1
  then show ?case by simp
next
  case (2 c cs)
  show ?case
  proof (cases "c = CHR ''['' \<and> takeWhile (\<lambda>x. x \<noteq> CHR '']'') cs \<noteq> [] \<and> dropWhile (\<lambda>x. x \<noteq> CHR '']'') cs \<noteq> []")
    case True
    with 2 show ?thesis
      by (auto simp: Let_def dest: set_takeWhileD)
  next
    case False
    with 2 show ?thesis
      by (auto simp: Let_def split: if_splits)
  qed
qed


text \<open>
  Claim C10. Every token that \<^const>\<open>ExtractTemplateValues\<close> returns is a non-empty string
  without a closing bracket. An empty bracket pair gives no token, and it is no match of the
  pattern that restoration counts positions with: in the last conjunct the token \<open>a\<close> is
  restored at position 0 of a text that starts with an empty pair, and lands on the bracketed
  token after the pair.
\<close>

theorem ExtractTemplateValues_tokens: "(\<forall>t \<in> set (ExtractTemplateValues s). t \<noteq> [] \<and> CHR '']'' \<notin> set t)
   \<and> ExtractTemplateValues ''[]'' = []
   \<and> (\<forall>m \<in> set (FindAllStringSubmatch translated). fst m \<noteq> ''[]'')
   \<and> PreserveTemplateValues ''[a]'' ''[] [b]'' = ''[] [a]''"
proof -
  have tokens: "\<forall>t \<in> set (ExtractTemplateValues s). t \<noteq> [] \<and> CHR '']'' \<notin> set t"
    unfolding ExtractTemplateValues_def using FindAll_shape [of _ s] by auto
  have empty_pair: "ExtractTemplateValues ''[]'' = []"
    by (simp add: ExtractTemplateValues_def)
  have positions: "\<forall>m \<in> set (FindAllStringSubmatch translated). fst m \<noteq> ''[]''"
    using FindAll_shape [of _ translated] by auto
  have example: "PreserveTemplateValues ''[a]'' ''[] [b]'' = ''[] [a]''"
    by (simp add: PreserveTemplateValues_def ExtractTemplateValues_def HasPrefix_def Let_def)
  from tokens empty_pair positions example show ?thesis by blast
qed

theorem ExtractTemplateValues_tokens_witness:
  "ExtractTemplateValues ''[] [a] Hi [last_name]!'' = [''a'', ''last_name'']
   \<and> ''a'' \<noteq> [] \<and> CHR '']'' \<notin> set ''a''
   \<and> ''last_name'' \<noteq> [] \<and> CHR '']'' \<notin> set ''last_name''
   \<and> map fst (FindAllStringSubmatch ''[] [b]'') = [''[b]'']"
  using ExtractTemplateValues_tokens [of "''[] [a] Hi [last_name]!''" "''[] [b]''"]
  by (simp add: ExtractTemplateValues_def)

text \<open>
  Claim C2. With the key configured and the engine answering \<open>Hola!\<close> to the text
  \<open>Hi [name]!\<close>, \<^const>\<open>Translate\<close> succeeds and returns \<open>Hola!\<close>: the answer has no
  bracketed token that restoration could replace, and the result does not contain
  \<open>[name]\<close>.
\<close>

theorem Translate_placeholder_lost:
  "Translate \<lparr>APIKey = ''sk''\<rparr> (\<lambda>n text s t. Choices [''Hola!'']) 0 ''Hi [name]!'' ''en'' ''es''
     = (1, Inr ''Hola!'')
   \<and> \<not> Contains ''Hola!'' ''[name]''"
  by (simp add: Translate_def TrimSpace_def isSpace_def PreserveTemplateValues_def
      ExtractTemplateValues_def HasPrefix_def Let_def)

text \<open>
  Claim C7. The original text \<open>[a] [b]\<close> has the tokens \<open>a\<close> and \<open>b\<close>; the translated
  text \<open>[a] [a]\<close> lacks \<open>[b]\<close>, and its bracketed token at position 1 is the second
  \<open>[a]\<close>. \<^const>\<open>PreserveTemplateValues\<close> hands the text of that match to
  \<^const>\<open>Replace1\<close>, which replaces its first occurrence, the token at position 0: the result
  is \<open>[b] [a]\<close>, where replacing the token at position 1 gives \<open>[a] [b]\<close>.
\<close>

theorem PreserveTemplateValues_replaces_first_occurrence:
  "FindAllStringSubmatch ''[a] [a]'' ! 1 = (''[a]'', ''a'')
   \<and> PreserveTemplateValues ''[a] [b]'' ''[a] [a]'' = ''[b] [a]''
   \<and> spec_PreserveTemplateValues ''[a] [b]'' ''[a] [a]'' = ''[a] [b]''"
  by (simp add: PreserveTemplateValues_def spec_PreserveTemplateValues_def
      ExtractTemplateValues_def HasPrefix_def Let_def)

section \<open>Structured translation keeps the keys\<close>

lemma update_new_key: "k \<notin> set (map fst acc) \<Longrightarrow> AList.update k v acc = acc @ [(k, v)]"
  by (induction acc) auto

lemma keys_of_append: "keys_of (xs @ ys) = keys_of xs @ keys_of ys"
  by (induction xs rule: keys_of.induct) auto

text \<open>
  The loop, started with any \<open>result\<close> whose keys are not among those still to visit,
  extends the key tree of \<open>result\<close> by the key tree of the entries it visits.
\<close>

lemma TranslateJSON_loop_keys:
  "TranslateJSON_loop s E n entries acc src tgt = (n', Inr r) \<Longrightarrow> distinct_keys entries
   \<Longrightarrow> set (map fst acc) \<inter> set (map fst entries) = {}
   \<Longrightarrow> keys_of r = keys_of acc @ keys_of entries"
proof (induction s E n entries acc src tgt arbitrary: n' r rule: TranslateJSON_loop.induct)
  case (1 s E n result sourceLang targetLang)
  then show ?case by simp
next
  case (2 s E n key v rest result sourceLang targetLang)
  then show ?case
    by (auto split: prod.splits sum.splits simp: update_new_key keys_of_append)
next
  case (3 s E n key v rest result sourceLang targetLang)
  then show ?case
    by (auto split: prod.splits sum.splits simp: update_new_key keys_of_append)
qed (auto simp: update_new_key keys_of_append)

text \<open>
  Claim C9. Whenever \<^const>\<open>TranslateJSON\<close> succeeds on a payload (a map: no object has two
  entries under one key), the result has the key tree of the input: the same keys at every
  nesting level, a string under every key that held a string, and every other value kept
  as it was.
\<close>

theorem TranslateJSON_same_keys:
  "TranslateJSON s E n data sourceLang targetLang = (n', Inr result) \<Longrightarrow> distinct_keys data
   \<Longrightarrow> keys_of result = keys_of data"
  unfolding TranslateJSON_def
  using TranslateJSON_loop_keys [of s E n data "[]" sourceLang targetLang n' result] by simp

theorem TranslateJSON_same_keys_witness:
  "TranslateJSON \<lparr>APIKey = ''sk''\<rparr> (\<lambda>n text s t. Choices [''<'' @ text @ ''>'']) 0
      [(''title'', JString ''Hi [name]!''),
       (''form'', JObject [(''label'', JString ''Name''), (''max'', JNumber ''3'')])]
      ''en'' ''es''
     = (2, Inr [(''title'', JString ''<Hi [name]!>''),
                (''form'', JObject [(''label'', JString ''<Name>''), (''max'', JNumber ''3'')])])
   \<and> keys_of [(''title'', JString ''<Hi [name]!>''),
               (''form'', JObject [(''label'', JString ''<Name>''), (''max'', JNumber ''3'')])]
     = [(''title'', Leaf), (''form'', Keys [(''label'', Leaf), (''max'', Kept (JNumber ''3''))])]"
proof -
  let ?data = "[(''title'', JString ''Hi [name]!''),
       (''form'', JObject [(''label'', JString ''Name''), (''max'', JNumber ''3'')])]"
  let ?result = "[(''title'', JString ''<Hi [name]!>''),
       (''form'', JObject [(''label'', JString ''<Name>''), (''max'', JNumber ''3'')])]"
  have run: "TranslateJSON \<lparr>APIKey = ''sk''\<rparr> (\<lambda>n text s t. Choices [''<'' @ text @ ''>'']) 0
      ?data ''en'' ''es'' = (2, Inr ?result)"
    by (simp add: TranslateJSON_def Translate_def TrimSpace_def isSpace_def
        PreserveTemplateValues_def ExtractTemplateValues_def HasPrefix_def Let_def)
  have maps: "distinct_keys ?data"
    by simp
  from TranslateJSON_same_keys [OF run maps] run show ?thesis
    by simp
qed

section \<open>The store under a quiet entity store\<close>

subsection \<open>Lists and identifiers\<close>

lemma find_append_case:
  "find P (xs @ ys) = (case find P xs of None \<Rightarrow> find P ys | Some x \<Rightarrow> Some x)"
  by (induction xs) auto

lemma find_filter_keep: "(\<And>x. P x \<Longrightarrow> Q x) \<Longrightarrow> find P (filter Q xs) = find P xs"
  by (induction xs) auto

lemma find_map_same: "(\<And>x. x \<in> set xs \<Longrightarrow> P (f x) = P x) \<Longrightarrow> find P (map f xs) = map_option f (find P xs)"
  by (induction xs) auto

lemma find_Some_D: "find P xs = Some x \<Longrightarrow> x \<in> set xs \<and> P x"
  by (induction xs) (auto split: if_splits)

lemma find_weaken: "find P xs = Some x \<Longrightarrow> Q x \<Longrightarrow> find (\<lambda>r. P r \<and> Q r) xs = Some x"
  by (induction xs) (auto split: if_splits)

lemma fold_max_ge: "a \<le> fold max xs (a::nat)"
  by (induction xs arbitrary: a) (auto intro: order_trans [OF max.cobounded2])

lemma fold_max_upper: "x \<in> set xs \<Longrightarrow> x \<le> fold max xs (a::nat)"
  by (induction xs arbitrary: a) (auto intro: order_trans [OF max.cobounded1 fold_max_ge])

lemma uuid_New_fresh: "uuid_New used \<notin> set used" "uuid_New used \<noteq> uuid_Nil"
  using fold_max_upper [of "uuid_New used" used 0]
  by (auto simp: uuid_New_def uuid_Nil_def)

lemma quietD: "quiet w t \<Longrightarrow> clock w \<le> n \<Longrightarrow> n < t \<Longrightarrow> \<not> db_fails w n"
  by (simp add: quiet_def)

subsection \<open>Store operations that do not fail\<close>

lemma db_First_ok:
  "\<not> db_fails w (clock w) \<Longrightarrow>
   db_First rows P w = (tick w, case find P rows of None \<Rightarrow> Inl ErrRecordNotFound | Some r \<Rightarrow> Inr r)"
  by (simp add: db_First_def db_fault_def)

lemma db_Create_ok:
  "\<not> db_fails w (clock w) \<Longrightarrow> ID tv = uuid_Nil \<Longrightarrow>
   db_Create tv w =
     (tick (w\<lparr>translation_versions := translation_versions w
          @ [column_defaults (tv\<lparr>ID := uuid_New (map ID (translation_versions w))\<rparr>)]\<rparr>),
      Inr (column_defaults (tv\<lparr>ID := uuid_New (map ID (translation_versions w))\<rparr>)))"
  using uuid_New_fresh(1) [of "map ID (translation_versions w)"]
  by (simp add: db_Create_def db_fault_def BeforeCreate_def column_defaults_def Let_def)

lemma db_Save_ok:
  "\<not> db_fails w (clock w) \<Longrightarrow> ID tv \<noteq> uuid_Nil \<Longrightarrow> ID tv \<in> set (map ID (translation_versions w)) \<Longrightarrow>
   db_Save tv w =
     (tick (w\<lparr>translation_versions := map (\<lambda>r. if ID r = ID tv then tv else r) (translation_versions w)\<rparr>),
      Inr tv)"
  by (simp add: db_Save_def db_fault_def Let_def)

lemma Cleanup_rows:
  "translation_versions (fst (CleanupOldVersions w)) = translation_versions w
   \<or> translation_versions (fst (CleanupOldVersions w)) = filter (\<lambda>r. \<not> Version r > 2) (translation_versions w)"
  by (simp add: CleanupOldVersions_def tick_def)

lemma Cleanup_other:
  "cache (fst (CleanupOldVersions w)) = cache w"
  "db_fails (fst (CleanupOldVersions w)) = db_fails w"
  "clock (fst (CleanupOldVersions w)) = Suc (clock w)"
  "engine (fst (CleanupOldVersions w)) = engine w"
  "calls (fst (CleanupOldVersions w)) = calls w"
  by (simp_all add: CleanupOldVersions_def tick_def)

text \<open>Updating a row by its identifier, appending a row, deleting rows.\<close>

lemma pk_update:
  assumes "primary_keys_ok rows" "r \<in> set rows" "ID e = ID r"
  shows "primary_keys_ok (map (\<lambda>x. if ID x = ID r then e else x) rows)"
proof -
  have "map ID (map (\<lambda>x. if ID x = ID r then e else x) rows) = map ID rows"
    using assms(3) by (induction rows) auto
  then show ?thesis using assms(1) unfolding primary_keys_ok_def by metis
qed

lemma pk_append:
  "primary_keys_ok rows \<Longrightarrow> ID e = uuid_New (map ID rows) \<Longrightarrow> primary_keys_ok (rows @ [e])"
  using uuid_New_fresh [of "map ID rows"] by (auto simp: primary_keys_ok_def)

lemma pk_filter: "primary_keys_ok rows \<Longrightarrow> primary_keys_ok (filter Q rows)"
  by (auto simp: primary_keys_ok_def distinct_map_filter)

lemma update_only_row:
  assumes "primary_keys_ok rows" "r \<in> set rows" "x \<in> set rows" "ID x = ID r"
  shows "x = r"
  using assms by (auto simp: primary_keys_ok_def dest: inj_on_eq_iff [OF iffD1 [OF distinct_map, THEN conjunct2]])

lemma find_update_hit:
  assumes "primary_keys_ok rows" "find P rows = Some r" "ID e = ID r" "P e"
  shows "find P (map (\<lambda>x. if ID x = ID r then e else x) rows) = Some e"
proof -
  have r: "r \<in> set rows" "P r" using find_Some_D [OF assms(2)] by auto
  have "find P (map (\<lambda>x. if ID x = ID r then e else x) rows)
      = map_option (\<lambda>x. if ID x = ID r then e else x) (find P rows)"
    by (rule find_map_same) (use assms r update_only_row [OF assms(1) r(1)] in auto)
  then show ?thesis using assms(2) by simp
qed

lemma find_update_miss:
  assumes "primary_keys_ok rows" "r \<in> set rows" "ID e = ID r" "\<not> P e" "\<not> P r"
  shows "find P (map (\<lambda>x. if ID x = ID r then e else x) rows) = find P rows"
proof -
  have eq: "find P (map (\<lambda>x. if ID x = ID r then e else x) rows)
      = map_option (\<lambda>x. if ID x = ID r then e else x) (find P rows)"
    by (rule find_map_same) (use assms update_only_row [OF assms(1,2)] in auto)
  show ?thesis
  proof (cases "find P rows")
    case None
    then show ?thesis using eq by simp
  next
    case (Some y)
    then have "y \<in> set rows" "P y" using find_Some_D by fastforce+
    then have "ID y \<noteq> ID r" using update_only_row [OF assms(1,2)] assms(5) by auto
    then show ?thesis using eq Some by simp
  qed
qed

subsection \<open>\<^const>\<open>SaveTranslation\<close>\<close>

text \<open>
  \<^const>\<open>SaveTranslation\<close> up to the cleanup, when none of its store operations fails: it
  succeeds; the row it returns carries the payload and is the version-2 row of the key
  afterwards; the version-1 row of the key is the one there was, or a new one with the
  payload; the rows of other keys are found as before.
\<close>

lemma Save_rows3:
  assumes q: "quiet w (clock w + 4)" and pk: "primary_keys_ok (translation_versions w)"
  shows "\<exists>W e r1. SaveTranslation w c l s d u = (fst (CleanupOldVersions W), Inr e)
     \<and> cache W = (cache w)(TranslationKey (uuid_String c) l s := None, ComponentKey (uuid_String c) := None)
     \<and> db_fails W = db_fails w \<and> clock w \<le> clock W \<and> engine W = engine w \<and> calls W = calls w
     \<and> key_version c l s 2 e \<and> Data e = d
     \<and> IsActive e = (case find (key_version c l s 2) (translation_versions w) of None \<Rightarrow> True | Some r \<Rightarrow> IsActive r)
     \<and> find (key_version c l s 2) (translation_versions W) = Some e
     \<and> find (key_version c l s 1) (translation_versions W) = Some r1
     \<and> (case find (key_version c l s 1) (translation_versions w) of None \<Rightarrow> Data r1 = d \<and> IsActive r1 | Some r \<Rightarrow> r1 = r)
     \<and> (\<forall>P. (\<forall>x. P x \<longrightarrow> \<not> same_key c l s x) \<longrightarrow> find P (translation_versions W) = find P (translation_versions w))
     \<and> primary_keys_ok (translation_versions W)"
proof -
  let ?rows = "translation_versions w"
  let ?K2 = "key_version c l s 2" and ?K1 = "key_version c l s 1"
  have h: "\<not> db_fails w (clock w)" "\<not> db_fails w (Suc (clock w))"
    "\<not> db_fails w (Suc (Suc (clock w)))" "\<not> db_fails w (Suc (Suc (Suc (clock w))))"
    using q by (simp_all add: quiet_def)
  show ?thesis
  proof (cases "find ?K2 ?rows")
    case None
    note n2 = None
    let ?new2 = "\<lparr>ID = uuid_New (map ID ?rows), ComponentID = c, Locale = l, Stage = s, Version = 2,
                  Data = d, IsActive = True, CreatedBy = u, UpdatedBy = u\<rparr>"
    have pk2: "primary_keys_ok (?rows @ [?new2])" using pk by (simp add: pk_append)
    show ?thesis
    proof (cases "find ?K1 ?rows")
      case None
      let ?new1 = "\<lparr>ID = uuid_New (map ID (?rows @ [?new2])), ComponentID = c, Locale = l, Stage = s, Version = 1,
                  Data = d, IsActive = True, CreatedBy = uuid_Nil, UpdatedBy = uuid_Nil\<rparr>"
      have pk3: "primary_keys_ok ((?rows @ [?new2]) @ [?new1])" using pk2 by (rule pk_append) simp
      show ?thesis
        apply (rule exI [of _ "w\<lparr>translation_versions := ?rows @ [?new2, ?new1], clock := Suc (Suc (Suc (Suc (clock w)))),
               cache := (cache w)(TranslationKey (uuid_String c) l s := None, ComponentKey (uuid_String c) := None)\<rparr>"])
        apply (rule exI [of _ ?new2])
        apply (rule exI [of _ ?new1])
        using h n2 None pk3
        apply (simp add: SaveTranslation_def db_First_ok db_Create_ok tick_def Let_def find_append_case column_defaults_def
            cache_Delete_def)
        apply (auto simp: key_version_def same_key_def split: option.splits)
        done
    next
      case (Some r1)
      show ?thesis
        apply (rule exI [of _ "w\<lparr>translation_versions := ?rows @ [?new2], clock := Suc (Suc (Suc (clock w))),
               cache := (cache w)(TranslationKey (uuid_String c) l s := None, ComponentKey (uuid_String c) := None)\<rparr>"])
        apply (rule exI [of _ ?new2])
        apply (rule exI [of _ r1])
        using h n2 Some pk2
        apply (simp add: SaveTranslation_def db_First_ok db_Create_ok tick_def Let_def find_append_case column_defaults_def
            cache_Delete_def)
        apply (auto simp: key_version_def same_key_def split: option.splits)
        done
    qed
  next
    case (Some r)
    note s2 = Some
    have r: "r \<in> set ?rows" "?K2 r" using find_Some_D [OF Some] by auto
    have idr: "ID r \<noteq> uuid_Nil" "ID r \<in> set (map ID ?rows)" using pk r by (force simp: primary_keys_ok_def)+
    let ?e = "r\<lparr>Data := d, UpdatedBy := u\<rparr>"
    let ?rows2 = "map (\<lambda>x. if ID x = ID r then ?e else x) ?rows"
    have pk2: "primary_keys_ok ?rows2" using pk r by (simp add: pk_update)
    have f2: "find ?K2 ?rows2 = Some ?e"
      using find_update_hit [OF pk Some, of ?e] r by (simp add: key_version_def)
    have f1: "find ?K1 ?rows2 = find ?K1 ?rows"
      using find_update_miss [OF pk r(1), of ?e ?K1] r by (simp add: key_version_def)
    have frame: "\<And>P. (\<forall>x. P x \<longrightarrow> \<not> same_key c l s x) \<Longrightarrow> find P ?rows2 = find P ?rows"
    proof -
      fix P :: "TranslationVersion \<Rightarrow> bool"
      assume "\<forall>x. P x \<longrightarrow> \<not> same_key c l s x"
      then have "\<not> P ?e" "\<not> P r" using r by (auto simp: same_key_def key_version_def)
      then show "find P ?rows2 = find P ?rows"
        using find_update_miss [OF pk r(1), of ?e P] by simp
    qed
    show ?thesis
    proof (cases "find ?K1 ?rows")
      case None
      let ?new1 = "\<lparr>ID = uuid_New (map ID ?rows2), ComponentID = c, Locale = l, Stage = s, Version = 1,
                  Data = d, IsActive = True, CreatedBy = uuid_Nil, UpdatedBy = uuid_Nil\<rparr>"
      have pk3: "primary_keys_ok (?rows2 @ [?new1])" using pk2 by (rule pk_append) simp
      show ?thesis
        apply (rule exI [of _ "w\<lparr>translation_versions := ?rows2 @ [?new1], clock := Suc (Suc (Suc (Suc (clock w)))),
               cache := (cache w)(TranslationKey (uuid_String c) l s := None, ComponentKey (uuid_String c) := None)\<rparr>"])
        apply (rule exI [of _ ?e])
        apply (rule exI [of _ ?new1])
        using h s2 None pk3 idr f2 f1 r frame
        apply (simp add: SaveTranslation_def db_First_ok db_Create_ok db_Save_ok tick_def Let_def find_append_case column_defaults_def
            cache_Delete_def del: map_map)
        apply (auto simp: key_version_def same_key_def split: option.splits)
        done
    next
      case (Some r1)
      show ?thesis
        apply (rule exI [of _ "w\<lparr>translation_versions := ?rows2, clock := Suc (Suc (Suc (clock w))),
               cache := (cache w)(TranslationKey (uuid_String c) l s := None, ComponentKey (uuid_String c) := None)\<rparr>"])
        apply (rule exI [of _ ?e])
        apply (rule exI [of _ r1])
        using h s2 Some pk2 idr f2 f1 r frame
        apply (simp add: SaveTranslation_def db_First_ok db_Create_ok db_Save_ok tick_def Let_def find_append_case column_defaults_def
            cache_Delete_def del: map_map)
        apply (auto simp: key_version_def same_key_def split: option.splits)
        done
    qed
  qed
qed

lemma clock_db_First [simp]: "clock (fst (db_First rows P w)) = Suc (clock w)"
  by (simp add: db_First_def tick_def)

lemma clock_db_Create [simp]: "clock (fst (db_Create tv w)) = Suc (clock w)"
  by (simp add: db_Create_def tick_def Let_def)

lemma clock_db_Save [simp]: "clock (fst (db_Save tv w)) = Suc (clock w)"
  by (simp add: db_Save_def tick_def Let_def)

lemma clock_Cleanup [simp]: "clock (fst (CleanupOldVersions w)) = Suc (clock w)"
  by (simp add: CleanupOldVersions_def tick_def)

lemma clock_cache_Delete [simp]: "clock (cache_Delete w k) = clock w"
  by (simp add: cache_Delete_def)

lemma db_fails_db_First [simp]: "db_fails (fst (db_First rows P w)) = db_fails w"
  by (simp add: db_First_def tick_def)

lemma db_fails_db_Create [simp]: "db_fails (fst (db_Create tv w)) = db_fails w"
  by (simp add: db_Create_def tick_def Let_def)

lemma db_fails_db_Save [simp]: "db_fails (fst (db_Save tv w)) = db_fails w"
  by (simp add: db_Save_def tick_def Let_def)

lemma Save_clock_ge2: "clock w + 2 \<le> clock (fst (SaveTranslation w c l s d u))"
  by (simp add: SaveTranslation_def Let_def split_def split: sum.splits)

lemma Save_clock_ge4:
  assumes "\<not> db_fails w (clock w)" "\<not> db_fails w (Suc (clock w))" "primary_keys_ok (translation_versions w)"
  shows "clock w + 4 \<le> clock (fst (SaveTranslation w c l s d u))"
proof (cases "find (key_version c l s 2) (translation_versions w)")
  case None
  then show ?thesis
    using assms
    by (simp add: SaveTranslation_def db_First_ok db_Create_ok tick_def Let_def split_def)
next
  case (Some r)
  then have "r \<in> set (translation_versions w)" using find_Some_D by fastforce
  then have "ID r \<noteq> uuid_Nil" "ID r \<in> set (map ID (translation_versions w))"
    using assms(3) by (force simp: primary_keys_ok_def)+
  then show ?thesis
    using assms Some
    by (simp add: SaveTranslation_def db_First_ok db_Save_ok tick_def Let_def split_def)
qed

lemma quiet_mono: "quiet w t \<Longrightarrow> t' \<le> t \<Longrightarrow> quiet w t'"
  by (auto simp: quiet_def)

lemma Save_quiet_window:
  assumes q: "quiet w (clock (fst (SaveTranslation w c l s d u)))"
    and pk: "primary_keys_ok (translation_versions w)"
  shows "quiet w (clock w + 4)"
proof -
  have "\<not> db_fails w (clock w)" "\<not> db_fails w (Suc (clock w))"
    using q Save_clock_ge2 [of w c l s d u] by (auto simp: quiet_def)
  then have "clock w + 4 \<le> clock (fst (SaveTranslation w c l s d u))"
    using pk by (rule Save_clock_ge4)
  then show ?thesis using q quiet_mono by blast
qed

lemma SaveTranslation_quiet:
  assumes q: "quiet w (clock w + 4)" and pk: "primary_keys_ok (translation_versions w)"
  shows "\<exists>w' e r1. SaveTranslation w c l s d u = (w', Inr e)
     \<and> cache w' = (cache w)(TranslationKey (uuid_String c) l s := None, ComponentKey (uuid_String c) := None)
     \<and> db_fails w' = db_fails w \<and> clock w \<le> clock w' \<and> engine w' = engine w \<and> calls w' = calls w
     \<and> key_version c l s 2 e \<and> Data e = d
     \<and> IsActive e = (case find (key_version c l s 2) (translation_versions w) of None \<Rightarrow> True | Some r \<Rightarrow> IsActive r)
     \<and> find (key_version c l s 2) (translation_versions w') = Some e
     \<and> find (key_version c l s 1) (translation_versions w') = Some r1
     \<and> (case find (key_version c l s 1) (translation_versions w) of None \<Rightarrow> Data r1 = d \<and> IsActive r1 | Some r \<Rightarrow> r1 = r)
     \<and> (\<forall>P. (\<forall>x. P x \<longrightarrow> \<not> same_key c l s x \<and> Version x \<le> 2) \<longrightarrow>
            find P (translation_versions w') = find P (translation_versions w))
     \<and> primary_keys_ok (translation_versions w')"
proof -
  obtain W e r1 where W: "SaveTranslation w c l s d u = (fst (CleanupOldVersions W), Inr e)"
     "cache W = (cache w)(TranslationKey (uuid_String c) l s := None, ComponentKey (uuid_String c) := None)"
     "db_fails W = db_fails w" "clock w \<le> clock W" "engine W = engine w" "calls W = calls w"
     "key_version c l s 2 e" "Data e = d"
     "IsActive e = (case find (key_version c l s 2) (translation_versions w) of None \<Rightarrow> True | Some r \<Rightarrow> IsActive r)"
     "find (key_version c l s 2) (translation_versions W) = Some e"
     "find (key_version c l s 1) (translation_versions W) = Some r1"
     "(case find (key_version c l s 1) (translation_versions w) of None \<Rightarrow> Data r1 = d \<and> IsActive r1 | Some r \<Rightarrow> r1 = r)"
     "\<forall>P. (\<forall>x. P x \<longrightarrow> \<not> same_key c l s x) \<longrightarrow> find P (translation_versions W) = find P (translation_versions w)"
     "primary_keys_ok (translation_versions W)"
    using Save_rows3 [OF q pk, of c l s d u] by blast
  let ?w' = "fst (CleanupOldVersions W)"
  have keep: "\<And>P. (\<And>x. P x \<Longrightarrow> Version x \<le> 2) \<Longrightarrow>
      find P (translation_versions ?w') = find P (translation_versions W)"
  proof -
    fix P :: "TranslationVersion \<Rightarrow> bool"
    assume "\<And>x. P x \<Longrightarrow> Version x \<le> 2"
    then have "find P (filter (\<lambda>r. \<not> Version r > 2) (translation_versions W)) = find P (translation_versions W)"
      by (intro find_filter_keep) force
    then show "find P (translation_versions ?w') = find P (translation_versions W)"
      using Cleanup_rows [of W] by auto
  qed
  have k2: "find (key_version c l s 2) (translation_versions ?w') = Some e"
    using keep [of "key_version c l s 2"] W(10) by (simp add: key_version_def)
  have k1: "find (key_version c l s 1) (translation_versions ?w') = Some r1"
    using keep [of "key_version c l s 1"] W(11) by (simp add: key_version_def)
  have frame: "\<forall>P. (\<forall>x. P x \<longrightarrow> \<not> same_key c l s x \<and> Version x \<le> 2) \<longrightarrow>
            find P (translation_versions ?w') = find P (translation_versions w)"
    using keep W(13) by simp
  have pk': "primary_keys_ok (translation_versions ?w')"
    using Cleanup_rows [of W] W(14) by (auto simp: pk_filter)
  show ?thesis
    using W(1-9,12) k2 k1 frame pk' by (simp add: Cleanup_other)
qed

lemma fst_db_First [simp]: "fst (db_First rows P w) = tick w"
  by (simp add: db_First_def)

lemma db_Create_Inl: "snd (db_Create tv w) = Inl e \<Longrightarrow> fst (db_Create tv w) = tick w"
  by (auto simp: db_Create_def Let_def split: if_splits)

lemma db_Save_Inl: "snd (db_Save tv w) = Inl e \<Longrightarrow> fst (db_Save tv w) = tick w"
  by (auto simp: db_Save_def db_Create_Inl Let_def split: if_splits)

lemma SaveTranslation_failure_rows:
  assumes "SaveTranslation w c l s d u = (w', Inl err)"
  shows "w' = tick (tick w)"
proof -
  let ?r = "snd (db_First (translation_versions w) (key_version c l s 2) w)"
  show ?thesis
  proof (cases "?r = Inl ErrRecordNotFound")
    case True
    then show ?thesis
      using assms db_Create_Inl [of _ "tick w"]
      by (auto simp: SaveTranslation_def Let_def split_def split: sum.splits)
  next
    case False
    then show ?thesis
      using assms db_Save_Inl [of _ "tick w"]
      by (auto simp: SaveTranslation_def Let_def split_def split: sum.splits)
  qed
qed

lemma GetTranslation_miss:
  assumes "quiet w (clock w + 2)" "cache w (TranslationKey (uuid_String c) l s) = None"
  shows "GetTranslation w c l s =
     (case find (active_key_version c l s 2) (translation_versions w) of
        Some r \<Rightarrow> (cache_Set (tick w) (TranslationKey (uuid_String c) l s) r, Inr r)
      | None \<Rightarrow> (case find (active_key_version c l s 1) (translation_versions w) of
                  Some r \<Rightarrow> (cache_Set (tick (tick w)) (TranslationKey (uuid_String c) l s) r, Inr r)
                | None \<Rightarrow> (tick (tick w), Inl ErrRecordNotFound)))"
proof -
  have "\<not> db_fails w (clock w)" "\<not> db_fails w (Suc (clock w))"
    using assms(1) by (simp_all add: quiet_def)
  then show ?thesis
    using assms(2)
    by (simp add: GetTranslation_def cache_Get_def db_First_ok tick_def Let_def split: option.splits)
qed

lemma RevertTranslation_quiet:
  assumes q: "quiet w (clock w + 3)" and pk: "primary_keys_ok (translation_versions w)"
    and v1: "find (key_version c l s 1) (translation_versions w) = Some version1"
    and v2: "find (key_version c l s 2) (translation_versions w) = Some version2"
  shows "\<exists>w'. RevertTranslation w c l s = (w', None)
     \<and> cache w' = (cache w)(TranslationKey (uuid_String c) l s := None)
     \<and> db_fails w' = db_fails w \<and> clock w \<le> clock w'
     \<and> find (key_version c l s 2) (translation_versions w') = Some (version2\<lparr>Data := Data version1\<rparr>)
     \<and> find (key_version c l s 1) (translation_versions w') = Some version1
     \<and> primary_keys_ok (translation_versions w')"
proof -
  let ?rows = "translation_versions w"
  have h: "\<not> db_fails w (clock w)" "\<not> db_fails w (Suc (clock w))"
    "\<not> db_fails w (Suc (Suc (clock w)))"
    using q by (simp_all add: quiet_def)
  have r: "version2 \<in> set ?rows" "key_version c l s 2 version2" using find_Some_D [OF v2] by auto
  have idr: "ID version2 \<noteq> uuid_Nil" "ID version2 \<in> set (map ID ?rows)"
    using pk r by (force simp: primary_keys_ok_def)+
  let ?e = "version2\<lparr>Data := Data version1\<rparr>"
  let ?rows2 = "map (\<lambda>x. if ID x = ID version2 then ?e else x) ?rows"
  have pk2: "primary_keys_ok ?rows2" using pk r by (simp add: pk_update)
  have f2: "find (key_version c l s 2) ?rows2 = Some ?e"
    using find_update_hit [OF pk v2, of ?e] r by (simp add: key_version_def)
  have f1: "find (key_version c l s 1) ?rows2 = find (key_version c l s 1) ?rows"
    using find_update_miss [OF pk r(1), of ?e "key_version c l s 1"] r by (simp add: key_version_def)
  show ?thesis
    using h v1 v2 idr pk2 f2 f1
    by (simp add: RevertTranslation_def db_First_ok db_Save_ok tick_def Let_def cache_Delete_def del: map_map)
qed

lemma healthy_quiet: "healthy w \<Longrightarrow> quiet w t"
  by (simp add: healthy_def)

lemma healthy_later: "healthy w \<Longrightarrow> db_fails w' = db_fails w \<Longrightarrow> clock w \<le> clock w' \<Longrightarrow> healthy w'"
  by (auto simp: healthy_def quiet_def)

lemma active_key_version_eq:
  "active_key_version c l s v = (\<lambda>r. key_version c l s v r \<and> IsActive r)"
  by (auto simp: active_key_version_def key_version_def fun_eq_iff)

lemma find_active:
  "find (key_version c l s v) rows = Some e \<Longrightarrow> IsActive e \<Longrightarrow>
   find (active_key_version c l s v) rows = Some e"
  unfolding active_key_version_eq by (rule find_weaken)


subsection \<open>The store invariant\<close>

text \<open>
  \<^const>\<open>SaveTranslation\<close> and \<^const>\<open>RevertTranslation\<close> maintain the store invariant,
  whichever of their store operations fail; the reads do not write rows.
\<close>

lemma db_First_found: "snd (db_First rows P w) = Inr r \<Longrightarrow> r \<in> set rows"
  by (auto simp: db_First_def split: if_splits option.splits dest: find_Some_D)

lemma store_invariant_rows:
  "translation_versions w' = translation_versions w \<Longrightarrow> store_invariant w \<Longrightarrow> store_invariant w'"
  by (simp add: store_invariant_def)

lemma db_Create_keeps: "store_invariant w \<Longrightarrow> store_invariant (fst (db_Create tv w))"
  using uuid_New_fresh(2) [of "map ID (translation_versions w)"]
  by (auto simp: store_invariant_def db_Create_def Let_def tick_def primary_keys_ok_def
      BeforeCreate_def column_defaults_def)

lemma db_Save_keeps:
  assumes "store_invariant w" and "ID tv = uuid_Nil \<or> IsActive tv"
  shows "store_invariant (fst (db_Save tv w))"
proof (cases "ID tv = uuid_Nil")
  case True
  then show ?thesis using db_Create_keeps [OF assms(1), of tv] by (simp add: db_Save_def)
next
  case False
  then have act: "IsActive tv" using assms(2) by simp
  have ids: "map ID (map (\<lambda>r. if ID r = ID tv then tv else r) (translation_versions w))
      = map ID (translation_versions w)"
    by (induction "translation_versions w") auto
  show ?thesis
    using False act assms(1) ids
    by (auto simp: store_invariant_def db_Save_def Let_def tick_def primary_keys_ok_def
        simp del: map_map)
qed

lemma Cleanup_keeps: "store_invariant w \<Longrightarrow> store_invariant (fst (CleanupOldVersions w))"
  using Cleanup_rows [of w] by (auto simp: store_invariant_def pk_filter)

lemma SaveTranslation_keeps_invariant:
  assumes inv: "store_invariant w"
  shows "store_invariant (fst (SaveTranslation w c l s d u))"
proof -
  let ?result = "snd (db_First (translation_versions w) (key_version c l s 2) w)"
  let ?new2 = "\<lparr>ID = uuid_Nil, ComponentID = c, Locale = l, Stage = s, Version = 2, Data = d,
       IsActive = True, CreatedBy = u, UpdatedBy = u\<rparr>"
  let ?upd = "(case ?result of Inl err \<Rightarrow> zero_TranslationVersion | Inr found \<Rightarrow> found)
       \<lparr>Data := d, UpdatedBy := u\<rparr>"
  let ?step2 = "if ?result = Inl ErrRecordNotFound then db_Create ?new2 (tick w)
                else db_Save ?upd (tick w)"
  have ok1: "store_invariant (tick w)"
    using inv by (rule store_invariant_rows [rotated]) (simp add: tick_def)
  have arg: "ID ?upd = uuid_Nil \<or> IsActive ?upd"
  proof (cases ?result)
    case (Inl err)
    then show ?thesis by (simp add: zero_TranslationVersion_def)
  next
    case (Inr found)
    then have "found \<in> set (translation_versions w)" by (rule db_First_found)
    then show ?thesis using inv Inr by (simp add: store_invariant_def)
  qed
  have ok2: "store_invariant (fst ?step2)"
  proof (cases "?result = Inl ErrRecordNotFound")
    case True
    then show ?thesis using db_Create_keeps [OF ok1, of ?new2] by simp
  next
    case False
    then show ?thesis using db_Save_keeps [OF ok1 arg] by simp
  qed
  let ?w2 = "fst ?step2"
  let ?result1 = "snd (db_First (translation_versions ?w2) (key_version c l s 1) ?w2)"
  let ?new1 = "\<lparr>ID = uuid_Nil, ComponentID = c, Locale = l, Stage = s, Version = 1, Data = d,
       IsActive = True, CreatedBy = uuid_Nil, UpdatedBy = uuid_Nil\<rparr>"
  let ?w4 = "if ?result1 = Inl ErrRecordNotFound then fst (db_Create ?new1 (tick ?w2)) else tick ?w2"
  have ok3: "store_invariant (tick ?w2)"
    using ok2 by (rule store_invariant_rows [rotated]) (simp add: tick_def)
  have ok4: "store_invariant ?w4"
  proof (cases "?result1 = Inl ErrRecordNotFound")
    case True
    then show ?thesis using db_Create_keeps [OF ok3, of ?new1] by simp
  next
    case False
    then show ?thesis using ok3 by simp
  qed
  let ?w6 = "cache_Delete (cache_Delete ?w4 (TranslationKey (uuid_String c) l s))
               (ComponentKey (uuid_String c))"
  have ok6: "store_invariant ?w6"
    using ok4 by (rule store_invariant_rows [rotated]) (simp add: cache_Delete_def)
  have ok7: "store_invariant (fst (CleanupOldVersions ?w6))"
    using ok6 by (rule Cleanup_keeps)
  have "fst (SaveTranslation w c l s d u) = ?w2
      \<or> fst (SaveTranslation w c l s d u) = fst (CleanupOldVersions ?w6)"
    by (simp add: SaveTranslation_def Let_def split_def split: sum.splits)
  then show ?thesis using ok2 ok7 by (elim disjE) (simp_all only:)
qed

lemma RevertTranslation_keeps_invariant:
  assumes inv: "store_invariant w"
  shows "store_invariant (fst (RevertTranslation w c l s))"
proof -
  let ?r1 = "snd (db_First (translation_versions w) (key_version c l s 1) w)"
  have ok1: "store_invariant (tick w)"
    using inv by (rule store_invariant_rows [rotated]) (simp add: tick_def)
  have ok2: "store_invariant (tick (tick w))"
    using ok1 by (rule store_invariant_rows [rotated]) (simp add: tick_def)
  show ?thesis
  proof (cases ?r1)
    case (Inl err)
    then show ?thesis using ok1 by (simp add: RevertTranslation_def split_def)
  next
    case (Inr version1)
    let ?result = "snd (db_First (translation_versions (tick w)) (key_version c l s 2) (tick w))"
    let ?new2 = "\<lparr>ID = uuid_Nil, ComponentID = c, Locale = l, Stage = s, Version = 2,
       Data = Data version1, IsActive = True, CreatedBy = uuid_Nil, UpdatedBy = uuid_Nil\<rparr>"
    let ?upd = "(case ?result of Inl err \<Rightarrow> zero_TranslationVersion | Inr found \<Rightarrow> found)
       \<lparr>Data := Data version1\<rparr>"
    have arg: "ID ?upd = uuid_Nil \<or> IsActive ?upd"
    proof (cases ?result)
      case (Inl err)
      then show ?thesis by (simp add: zero_TranslationVersion_def)
    next
      case found: (Inr found)
      then have "found \<in> set (translation_versions (tick w))" by (rule db_First_found)
      then show ?thesis using ok1 found by (simp add: store_invariant_def)
    qed
    have c: "store_invariant (fst (db_Create ?new2 (tick (tick w))))"
      using ok2 by (rule db_Create_keeps)
    have s: "store_invariant (fst (db_Save ?upd (tick (tick w))))"
      using ok2 arg by (rule db_Save_keeps)
    have s': "store_invariant (cache_Delete (fst (db_Save ?upd (tick (tick w)))) k)" for k
      using s by (rule store_invariant_rows [rotated]) (simp add: cache_Delete_def)
    have "fst (RevertTranslation w c l s) = fst (db_Create ?new2 (tick (tick w)))
        \<or> fst (RevertTranslation w c l s) = fst (db_Save ?upd (tick (tick w)))
        \<or> fst (RevertTranslation w c l s)
            = cache_Delete (fst (db_Save ?upd (tick (tick w)))) (TranslationKey (uuid_String c) l s)"
      using Inr
      by (simp add: RevertTranslation_def Let_def split_def split: sum.splits)
    then show ?thesis using c s s' by (elim disjE) (simp_all only:)
  qed
qed

text \<open>
  Claim C8. On a store that does not fail and satisfies the store invariant,
  \<^const>\<open>SaveTranslation\<close> of a payload succeeds and the \<^const>\<open>GetTranslation\<close> that
  follows returns a row with exactly that payload, for every component, locale, stage and
  payload, whatever the cache held before.
\<close>

theorem Save_then_Get:
  assumes hw: "healthy w" and inv: "store_invariant w"
  shows "\<exists>w1 saved w2 found. SaveTranslation w c l s P u = (w1, Inr saved)
      \<and> GetTranslation w1 c l s = (w2, Inr found) \<and> Data found = P"
proof -
  have pk: "primary_keys_ok (translation_versions w)"
    and act: "\<forall>r \<in> set (translation_versions w). IsActive r"
    using inv by (simp_all add: store_invariant_def)
  from SaveTranslation_quiet [OF healthy_quiet [OF hw] pk, of c l s P u]
  obtain w1 e r1 where s: "SaveTranslation w c l s P u = (w1, Inr e)"
      "cache w1 = (cache w)(TranslationKey (uuid_String c) l s := None, ComponentKey (uuid_String c) := None)"
      "db_fails w1 = db_fails w" "clock w \<le> clock w1" "engine w1 = engine w" "calls w1 = calls w"
      "key_version c l s 2 e" "Data e = P"
      "IsActive e = (case find (key_version c l s 2) (translation_versions w) of None \<Rightarrow> True | Some r \<Rightarrow> IsActive r)"
      "find (key_version c l s 2) (translation_versions w1) = Some e"
    by (elim exE conjE) (rule that; assumption)
  have "IsActive e"
    using s(9) act by (auto split: option.splits dest: find_Some_D)
  then have f: "find (active_key_version c l s 2) (translation_versions w1) = Some e"
    using s(10) by (intro find_active)
  have miss: "cache w1 (TranslationKey (uuid_String c) l s) = None"
    using s(2) by simp
  have "healthy w1" using healthy_later [OF hw s(3,4)] .
  then have "quiet w1 (clock w1 + 2)" by (rule healthy_quiet)
  from GetTranslation_miss [OF this miss] f
  have "GetTranslation w1 c l s = (cache_Set (tick w1) (TranslationKey (uuid_String c) l s) e, Inr e)"
    by simp
  with s(1,8) show ?thesis by blast
qed

theorem Save_then_Get_witness:
  "\<exists>w1 saved w2 found.
     SaveTranslation example_world 7 ''en'' ''draft'' [(''title'', JString ''Hello [name]!'')] 9
       = (w1, Inr saved)
     \<and> GetTranslation w1 7 ''en'' ''draft'' = (w2, Inr found)
     \<and> Data found = [(''title'', JString ''Hello [name]!'')]"
proof -
  have h: "healthy example_world"
    by (simp add: healthy_def quiet_def example_world_def)
  have inv: "store_invariant example_world"
    by (simp add: store_invariant_def primary_keys_ok_def example_world_def example_rows_def
        uuid_Nil_def)
  show ?thesis
    using Save_then_Get [OF h inv] .
qed

text \<open>
  Claim C1. On a store that does not fail and has proper primary keys, take a key without
  any row. After \<^const>\<open>SaveTranslation\<close> of \<open>P1\<close> and then of \<open>P2\<close>,
  \<^const>\<open>RevertTranslation\<close> succeeds and the \<^const>\<open>GetTranslation\<close> that follows
  returns a row with the payload \<open>P1\<close> of the first save.
\<close>

theorem Save_Save_Revert_Get:
  assumes hw: "healthy w" and pk: "primary_keys_ok (translation_versions w)"
    and fresh: "\<forall>r \<in> set (translation_versions w). \<not> same_key c l s r"
  shows "\<exists>w1 saved1 w2 saved2 w3 w4 found.
      SaveTranslation w c l s P1 u1 = (w1, Inr saved1)
      \<and> SaveTranslation w1 c l s P2 u2 = (w2, Inr saved2)
      \<and> RevertTranslation w2 c l s = (w3, None)
      \<and> GetTranslation w3 c l s = (w4, Inr found) \<and> Data found = P1"
proof -
  have none: "find (key_version c l s 2) (translation_versions w) = None"
     "find (key_version c l s 1) (translation_versions w) = None"
    using fresh by (auto simp: find_None_iff same_key_def key_version_def)
  from SaveTranslation_quiet [OF healthy_quiet [OF hw] pk, of c l s P1 u1]
  obtain w1 e1 r1 where s1: "SaveTranslation w c l s P1 u1 = (w1, Inr e1)"
      "cache w1 = (cache w)(TranslationKey (uuid_String c) l s := None, ComponentKey (uuid_String c) := None)"
      "db_fails w1 = db_fails w" "clock w \<le> clock w1" "engine w1 = engine w" "calls w1 = calls w"
      "key_version c l s 2 e1" "Data e1 = P1"
      "IsActive e1 = (case find (key_version c l s 2) (translation_versions w) of None \<Rightarrow> True | Some r \<Rightarrow> IsActive r)"
      "find (key_version c l s 2) (translation_versions w1) = Some e1"
      "find (key_version c l s 1) (translation_versions w1) = Some r1"
      "(case find (key_version c l s 1) (translation_versions w) of None \<Rightarrow> Data r1 = P1 \<and> IsActive r1 | Some r \<Rightarrow> r1 = r)"
      "\<forall>P. (\<forall>x. P x \<longrightarrow> \<not> same_key c l s x \<and> Version x \<le> 2) \<longrightarrow>
            find P (translation_versions w1) = find P (translation_versions w)"
      "primary_keys_ok (translation_versions w1)"
    by (elim exE conjE) (rule that; assumption)
  have hw1: "healthy w1" using healthy_later [OF hw s1(3,4)] .
  have a1: "IsActive e1" "Data r1 = P1" using s1(9,12) none by simp_all
  from SaveTranslation_quiet [OF healthy_quiet [OF hw1] s1(14), of c l s P2 u2]
  obtain w2 e2 r2 where s2: "SaveTranslation w1 c l s P2 u2 = (w2, Inr e2)"
      "cache w2 = (cache w1)(TranslationKey (uuid_String c) l s := None, ComponentKey (uuid_String c) := None)"
      "db_fails w2 = db_fails w1" "clock w1 \<le> clock w2" "engine w2 = engine w1" "calls w2 = calls w1"
      "key_version c l s 2 e2" "Data e2 = P2"
      "IsActive e2 = (case find (key_version c l s 2) (translation_versions w1) of None \<Rightarrow> True | Some r \<Rightarrow> IsActive r)"
      "find (key_version c l s 2) (translation_versions w2) = Some e2"
      "find (key_version c l s 1) (translation_versions w2) = Some r2"
      "(case find (key_version c l s 1) (translation_versions w1) of None \<Rightarrow> Data r2 = P2 \<and> IsActive r2 | Some r \<Rightarrow> r2 = r)"
      "\<forall>P. (\<forall>x. P x \<longrightarrow> \<not> same_key c l s x \<and> Version x \<le> 2) \<longrightarrow>
            find P (translation_versions w2) = find P (translation_versions w1)"
      "primary_keys_ok (translation_versions w2)"
    by (elim exE conjE) (rule that; assumption)
  have hw2: "healthy w2" using healthy_later [OF hw1 s2(3,4)] .
  have a2: "IsActive e2" "r2 = r1" using s2(9,12) s1(10,11) a1 by simp_all
  from RevertTranslation_quiet [OF healthy_quiet [OF hw2] s2(14) s2(11) s2(10)]
  obtain w3 where r: "RevertTranslation w2 c l s = (w3, None)"
     "cache w3 = (cache w2)(TranslationKey (uuid_String c) l s := None)"
     "db_fails w3 = db_fails w2" "clock w2 \<le> clock w3"
     "find (key_version c l s 2) (translation_versions w3) = Some (e2\<lparr>Data := Data r2\<rparr>)"
    by (elim exE conjE) (rule that; assumption)
  have hw3: "healthy w3" using healthy_later [OF hw2 r(3,4)] .
  have f: "find (active_key_version c l s 2) (translation_versions w3) = Some (e2\<lparr>Data := Data r2\<rparr>)"
    using r(5) a2 by (intro find_active) simp_all
  have miss: "cache w3 (TranslationKey (uuid_String c) l s) = None"
    using r(2) by simp
  from GetTranslation_miss [OF healthy_quiet [OF hw3] miss] f
  have "GetTranslation w3 c l s
      = (cache_Set (tick w3) (TranslationKey (uuid_String c) l s) (e2\<lparr>Data := Data r2\<rparr>), Inr (e2\<lparr>Data := Data r2\<rparr>))"
    by simp
  moreover have "Data (e2\<lparr>Data := Data r2\<rparr>) = P1" using a1 a2 by simp
  ultimately show ?thesis using s1(1) s2(1) r(1) by blast
qed

theorem Save_Save_Revert_Get_witness:
  "\<exists>w1 saved1 w2 saved2 w3 w4 found.
     SaveTranslation example_world 7 ''id'' ''draft'' [(''title'', JString ''satu'')] 9
       = (w1, Inr saved1)
     \<and> SaveTranslation w1 7 ''id'' ''draft'' [(''title'', JString ''dua'')] 9 = (w2, Inr saved2)
     \<and> RevertTranslation w2 7 ''id'' ''draft'' = (w3, None)
     \<and> GetTranslation w3 7 ''id'' ''draft'' = (w4, Inr found)
     \<and> Data found = [(''title'', JString ''satu'')]"
proof -
  have h: "healthy example_world"
    by (simp add: healthy_def quiet_def example_world_def)
  have pk: "primary_keys_ok (translation_versions example_world)"
    by (simp add: primary_keys_ok_def example_world_def example_rows_def uuid_Nil_def)
  have fresh: "\<forall>r \<in> set (translation_versions example_world). \<not> same_key 7 ''id'' ''draft'' r"
    by (simp add: example_world_def example_rows_def same_key_def)
  show ?thesis
    using Save_Save_Revert_Get [OF h pk fresh] .
qed

section \<open>Failures of the store, and the cache on revert\<close>

text \<open>
  Claim C3. A store that holds only the version-1 row of a key: \<^const>\<open>GetTranslation\<close>
  falls back to that row and caches it. \<^const>\<open>RevertTranslation\<close> then finds no
  version-2 row, creates one from version 1 and returns the result of the creation at once:
  it reports success, and the entry of the key is still in the cache.
\<close>

theorem Revert_keeps_cache_entry:
  "(let version1 = \<lparr>ID = 2, ComponentID = 7, Locale = ''en'', Stage = ''draft'', Version = 1,
                     Data = [(''title'', JString ''Hi [name]!'')], IsActive = True,
                     CreatedBy = 0, UpdatedBy = 0\<rparr>;
        w = example_world\<lparr>translation_versions := [version1]\<rparr>;
        (w1, found) = GetTranslation w 7 ''en'' ''draft'';
        (w2, err) = RevertTranslation w1 7 ''en'' ''draft''
    in found = Inr version1 \<and> err = None
       \<and> map Version (translation_versions w2) = [1, 2]
       \<and> cache w2 (TranslationKey (uuid_String 7) ''en'' ''draft'') = Some version1)"
  by (simp add: example_world_def GetTranslation_def RevertTranslation_def db_First_def
      db_Create_def db_fault_def tick_def cache_Get_def cache_Set_def
      active_key_version_def key_version_def BeforeCreate_def column_defaults_def uuid_Nil_def
      uuid_New_def Let_def)


text \<open>
  Claim C4. Three failures of the entity store that the call does not report.
  \<^const>\<open>SaveTranslation\<close> on an empty store whose fourth operation, the creation of the
  version-1 row, fails: the call succeeds and only the version-2 row exists.
  \<^const>\<open>GetMultipleTranslations\<close> when the batched query for version 2 fails, and when
  the batched query for version 1 fails: the call succeeds with a result that lacks the
  component, whose active row is in the store.
\<close>

theorem store_failures_swallowed:
  "(let w = example_world\<lparr>translation_versions := [], db_fails := (\<lambda>n. n = 3)\<rparr>;
        (w1, saved) = SaveTranslation w 7 ''en'' ''draft'' [(''title'', JString ''Hello'')] 9
    in map_sum id Data saved = Inr [(''title'', JString ''Hello'')]
       \<and> map Version (translation_versions w1) = [2])
   \<and> (let w = example_world\<lparr>db_fails := (\<lambda>n. n = 0)\<rparr>;
          (w1, found) = GetMultipleTranslations w [7] ''en'' ''draft''
      in map_sum id (\<lambda>results. results (uuid_String 7)) found = Inr None
         \<and> find (active_key_version 7 ''en'' ''draft'' 2) (translation_versions w) \<noteq> None)
   \<and> (let w = example_world\<lparr>translation_versions := tl example_rows, db_fails := (\<lambda>n. n = 1)\<rparr>;
          (w1, found) = GetMultipleTranslations w [7] ''en'' ''draft''
      in map_sum id (\<lambda>results. results (uuid_String 7)) found = Inr None
         \<and> find (active_key_version 7 ''en'' ''draft'' 1) (translation_versions w) \<noteq> None)"
  by (simp add: example_world_def example_rows_def SaveTranslation_def GetMultipleTranslations_def
      CleanupOldVersions_def db_First_def db_Find_def db_Create_def db_Save_def db_fault_def tick_def
      cache_Get_def cache_Delete_def active_key_version_def active_in_version_def key_version_def
      BeforeCreate_def column_defaults_def uuid_Nil_def uuid_New_def Let_def)


section \<open>The bulk read\<close>

text \<open>
  The first pass files every cache hit and lists every miss; the rows of a batched query are
  filed under the identifier of their component.
\<close>

lemma cache_pass_result:
  "cache_pass w cids l s results missing = (results', missing') \<Longrightarrow>
     dom results' = dom results \<union> uuid_String ` {c \<in> set cids. cache w (TranslationKey (uuid_String c) l s) \<noteq> None}
     \<and> set missing' = set missing \<union> {c \<in> set cids. cache w (TranslationKey (uuid_String c) l s) = None}"
proof (induction cids arbitrary: results missing)
  case Nil
  then show ?case by simp
next
  case (Cons c cids)
  show ?case
  proof (cases "cache w (TranslationKey (uuid_String c) l s)")
    case None
    with Cons.prems have "cache_pass w cids l s results (missing @ [c]) = (results', missing')"
      by (simp add: cache_Get_def)
    from Cons.IH [OF this] None show ?thesis
      by auto
  next
    case (Some cached)
    with Cons.prems have "cache_pass w cids l s (results(uuid_String c \<mapsto> cached)) missing = (results', missing')"
      by (simp add: cache_Get_def)
    from Cons.IH [OF this]
    have "dom results' = insert (uuid_String c) (dom results)
          \<union> uuid_String ` {c \<in> set cids. cache w (TranslationKey (uuid_String c) l s) \<noteq> None}"
      and "set missing' = set missing \<union> {c \<in> set cids. cache w (TranslationKey (uuid_String c) l s) = None}"
      by (auto simp: dom_def split: if_splits)
    with Some show ?thesis
      by (auto split: if_splits)
  qed
qed

lemma file_rows_result:
  "file_rows w ts l s results = (w', results') \<Longrightarrow>
     dom results' = dom results \<union> (\<lambda>t. uuid_String (ComponentID t)) ` set ts"
  by (induction ts arbitrary: w results) auto

lemma db_Find_ok:
  "\<not> db_fails w (clock w) \<Longrightarrow> db_Find rows P w = (tick w, Inr (filter P rows))"
  by (simp add: db_Find_def db_fault_def)

lemma file_rows_clock: "clock (fst (file_rows w ts l s results)) = clock w"
  by (induction ts arbitrary: w results) (auto simp: cache_Set_def)

lemma file_rows_db_fails: "db_fails (fst (file_rows w ts l s results)) = db_fails w"
  by (induction ts arbitrary: w results) (auto simp: cache_Set_def)

lemma file_rows_rows: "translation_versions (fst (file_rows w ts l s results)) = translation_versions w"
  by (induction ts arbitrary: w results) (auto simp: cache_Set_def)

lemma active_rows_strings:
  "(\<lambda>t. uuid_String (ComponentID t)) ` set (filter (active_in_version ids l s v) rows)
   = uuid_String ` {c \<in> set ids. find (active_key_version c l s v) rows \<noteq> None}"
  by (auto simp: active_in_version_def active_key_version_def find_None_iff image_iff) 


lemma bulk_key_sets:
  fixes f :: "'a \<Rightarrow> 'b"
  assumes "M = {c \<in> C. \<not> hit c}" "F = f ` {c \<in> M. has2 c}" "S = {c \<in> M. f c \<notin> F}"
  shows "f ` {c \<in> C. hit c} \<union> F \<union> f ` {c \<in> S. has1 c}
       = f ` {c \<in> C. hit c \<or> has2 c \<or> has1 c}"
proof
  show "f ` {c \<in> C. hit c} \<union> F \<union> f ` {c \<in> S. has1 c} \<subseteq> f ` {c \<in> C. hit c \<or> has2 c \<or> has1 c}"
    using assms by auto
  show "f ` {c \<in> C. hit c \<or> has2 c \<or> has1 c} \<subseteq> f ` {c \<in> C. hit c} \<union> F \<union> f ` {c \<in> S. has1 c}"
  proof
    fix x assume "x \<in> f ` {c \<in> C. hit c \<or> has2 c \<or> has1 c}"
    then obtain c where c: "x = f c" "c \<in> C" "hit c \<or> has2 c \<or> has1 c" by auto
    show "x \<in> f ` {c \<in> C. hit c} \<union> F \<union> f ` {c \<in> S. has1 c}"
    proof (cases "hit c")
      case True
      then show ?thesis using c by auto
    next
      case False
      then have m: "c \<in> M" using c assms(1) by simp
      show ?thesis
      proof (cases "f c \<in> F")
        case True
        then show ?thesis using c by simp
      next
        case notF: False
        then have "\<not> has2 c" using m assms(2) by auto
        then have "has1 c" "c \<in> S" using c False m notF assms(3) by auto
        then show ?thesis using c by auto
      qed
    qed
  qed
qed

text \<open>
  Claim C6. When the (at most two) batched queries of the call do not fail,
  \<^const>\<open>GetMultipleTranslations\<close> returns a result without error, and the keys of the
  result are exactly the identifiers of the requested components that have a translation for
  the locale and the stage: a cache entry, an active version-2 row or an active version-1
  row. A requested component without any of them is absent from the result.
\<close>

theorem GetMultipleTranslations_keys:
  assumes q: "quiet w (clock w + 2)"
  shows "\<exists>w' results. GetMultipleTranslations w componentIDs locale stage = (w', Inr results)
     \<and> dom results = uuid_String ` {c \<in> set componentIDs. has_translation w c locale stage}"
proof -
  let ?rows = "translation_versions w"
  let ?hit = "\<lambda>c. cache w (TranslationKey (uuid_String c) locale stage) \<noteq> None"
  let ?has2 = "\<lambda>c. find (active_key_version c locale stage 2) ?rows \<noteq> None"
  let ?has1 = "\<lambda>c. find (active_key_version c locale stage 1) ?rows \<noteq> None"
  have h: "\<not> db_fails w (clock w)" "\<not> db_fails w (Suc (clock w))"
    using q by (simp_all add: quiet_def)
  obtain results0 missing where cp: "cache_pass w componentIDs locale stage Map.empty [] = (results0, missing)"
    by (cases "cache_pass w componentIDs locale stage Map.empty []")
  define H where "H = uuid_String ` {c \<in> set componentIDs. ?hit c}"
  define F where "F = uuid_String ` {c \<in> set missing. ?has2 c}"
  define S where "S = {c \<in> set missing. uuid_String c \<notin> F}"
  define V where "V = uuid_String ` {c \<in> S. ?has1 c}"
  from cache_pass_result [OF cp]
  have d0: "dom results0 = H"
    and m0: "set missing = {c \<in> set componentIDs. \<not> ?hit c}"
    by (simp_all add: H_def)
  have total: "H \<union> F \<union> V = uuid_String ` {c \<in> set componentIDs. has_translation w c locale stage}"
    unfolding H_def V_def has_translation_def using m0 F_def S_def by (rule bulk_key_sets)
  show ?thesis
  proof (cases "missing = []")
    case True
    then have "F = {}" "V = {}" by (simp_all add: F_def V_def S_def)
    then have "dom results0 = uuid_String ` {c \<in> set componentIDs. has_translation w c locale stage}"
      using total d0 by simp
    then show ?thesis
      using cp True by (simp add: GetMultipleTranslations_def)
  next
    case False
    let ?ts = "filter (active_in_version missing locale stage 2) ?rows"
    obtain w2 results2 where f2: "file_rows (tick w) ?ts locale stage results0 = (w2, results2)"
      by (cases "file_rows (tick w) ?ts locale stage results0")
    have d2: "dom results2 = H \<union> F"
      unfolding F_def d0 [symmetric] by (simp only: file_rows_result [OF f2] active_rows_strings)
    have w2: "clock w2 = Suc (clock w)" "db_fails w2 = db_fails w" "translation_versions w2 = ?rows"
      using file_rows_clock [of "tick w" ?ts "locale" "stage" results0]
        file_rows_db_fails [of "tick w" ?ts "locale" "stage" results0]
        file_rows_rows [of "tick w" ?ts "locale" "stage" results0] f2
      by (simp_all add: tick_def)
    let ?found = "set (map (\<lambda>t. uuid_String (ComponentID t)) ?ts)"
    let ?still = "filter (\<lambda>id. uuid_String id \<notin> ?found) missing"
    have found: "?found = F"
      unfolding F_def by (simp only: set_map active_rows_strings)
    have still: "set ?still = S"
      unfolding S_def by (simp only: set_filter found)
    show ?thesis
    proof (cases "?still = []")
      case True
      have "GetMultipleTranslations w componentIDs locale stage = (w2, Inr results2)"
        using cp False h f2 True
        by (simp add: GetMultipleTranslations_def db_Find_ok Let_def del: set_map)
      moreover have "dom results2 = uuid_String ` {c \<in> set componentIDs. has_translation w c locale stage}"
      proof -
        have "S = {}" using True still by (simp only: set_empty2 [symmetric] list.set) 
        then have "V = {}" by (simp add: V_def)
        then show ?thesis using d2 total by simp
      qed
      ultimately show ?thesis by blast
    next
      case nonempty: False
      let ?ts1 = "filter (active_in_version ?still locale stage 1) ?rows"
      obtain w4 results4 where f4: "file_rows (tick w2) ?ts1 locale stage results2 = (w4, results4)"
        by (cases "file_rows (tick w2) ?ts1 locale stage results2")
      have "dom results4 = dom results2 \<union> uuid_String ` {c \<in> set ?still. ?has1 c}"
        by (simp only: file_rows_result [OF f4] active_rows_strings)
      then have d4: "dom results4 = H \<union> F \<union> V"
        unfolding V_def d2 by (simp only: still)
      have h2: "\<not> db_fails w2 (clock w2)" using h w2 by simp
      have "GetMultipleTranslations w componentIDs locale stage = (w4, Inr results4)"
        using cp False h f2 nonempty f4 w2(3) db_Find_ok [OF h2, of ?rows]
        by (simp add: GetMultipleTranslations_def db_Find_ok Let_def del: set_map)
      moreover have "dom results4 = uuid_String ` {c \<in> set componentIDs. has_translation w c locale stage}"
        using d4 total by simp
      ultimately show ?thesis by blast
    qed
  qed
qed


theorem GetMultipleTranslations_keys_witness:
  "(\<exists>w' results. GetMultipleTranslations example_world [7, 8] ''en'' ''draft'' = (w', Inr results)
      \<and> dom results
          = uuid_String ` {c \<in> set [7, 8]. has_translation example_world c ''en'' ''draft''})
   \<and> has_translation example_world 7 ''en'' ''draft''
   \<and> \<not> has_translation example_world 8 ''en'' ''draft''"
proof -
  have q: "quiet example_world (clock example_world + 2)"
    by (simp add: quiet_def example_world_def)
  have "has_translation example_world 7 ''en'' ''draft''"
    by (simp add: has_translation_def example_world_def example_rows_def active_key_version_def)
  moreover have "\<not> has_translation example_world 8 ''en'' ''draft''"
    by (simp add: has_translation_def example_world_def example_rows_def active_key_version_def)
  ultimately show ?thesis
    using GetMultipleTranslations_keys [OF q, of "[7, 8]" "''en''" "''draft''"] by simp
qed

section \<open>Backfill\<close>

subsection \<open>What every call leaves alone\<close>

lemma calls_db_First [simp]: "calls (fst (db_First rows P w)) = calls w"
  and engine_db_First [simp]: "engine (fst (db_First rows P w)) = engine w"
  by (simp_all add: db_First_def tick_def)

lemma calls_db_Create [simp]: "calls (fst (db_Create tv w)) = calls w"
  and engine_db_Create [simp]: "engine (fst (db_Create tv w)) = engine w"
  by (simp_all add: db_Create_def tick_def Let_def)

lemma calls_db_Save [simp]: "calls (fst (db_Save tv w)) = calls w"
  and engine_db_Save [simp]: "engine (fst (db_Save tv w)) = engine w"
  by (simp_all add: db_Save_def tick_def Let_def)

lemma fields_cache_Delete [simp]:
  "db_fails (cache_Delete w k) = db_fails w" "engine (cache_Delete w k) = engine w"
  "calls (cache_Delete w k) = calls w"
  by (simp_all add: cache_Delete_def)

lemma SaveTranslation_env:
  "db_fails (fst (SaveTranslation w c l s d u)) = db_fails w"
  "engine (fst (SaveTranslation w c l s d u)) = engine w"
  by (simp_all add: SaveTranslation_def Let_def split_def Cleanup_other tick_def split: sum.splits)

lemma BackfillLoop_Cons_success:
  "BackfillLoop w svc data c src stage u (t # ts) acc = (w1, ResultsJSON code saved) \<Longrightarrow>
   \<exists>n d w' e. TranslateJSON svc (engine w) (calls w) data src t = (n, Inr d)
     \<and> SaveTranslation (w\<lparr>calls := n\<rparr>) c t stage d u = (w', Inr e)
     \<and> BackfillLoop w' svc data c src stage u ts (acc @ [e]) = (w1, ResultsJSON code saved)"
  by (auto split: prod.splits sum.splits)

lemma BackfillLoop_env:
  "db_fails (fst (BackfillLoop w svc data c src stage u ts acc)) = db_fails w
   \<and> engine (fst (BackfillLoop w svc data c src stage u ts acc)) = engine w
   \<and> clock w \<le> clock (fst (BackfillLoop w svc data c src stage u ts acc))"
proof (induction ts arbitrary: w acc)
  case Nil
  then show ?case by simp
next
  case (Cons t ts)
  obtain n r where tr: "TranslateJSON svc (engine w) (calls w) data src t = (n, r)"
    by (cases "TranslateJSON svc (engine w) (calls w) data src t")
  show ?case
  proof (cases r)
    case (Inl err)
    then show ?thesis using tr by simp
  next
    case (Inr d)
    obtain w' r' where sv: "SaveTranslation (w\<lparr>calls := n\<rparr>) c t stage d u = (w', r')"
      by (cases "SaveTranslation (w\<lparr>calls := n\<rparr>) c t stage d u")
    have env: "db_fails w' = db_fails w" "engine w' = engine w" "clock w \<le> clock w'"
      using SaveTranslation_env [of "w\<lparr>calls := n\<rparr>" c t stage d u]
        Save_clock_ge2 [of "w\<lparr>calls := n\<rparr>" c t stage d u] sv by simp_all
    show ?thesis
    proof (cases r')
      case (Inl err)
      then show ?thesis using tr Inr sv env by simp
    next
      case inr: (Inr e)
      show ?thesis
        using tr Inr sv inr env Cons.IH [of w' "acc @ [e]"] by simp
    qed
  qed
qed

lemma BackfillLoop_acc:
  "BackfillLoop w svc data c src stage u ts acc =
     (case BackfillLoop w svc data c src stage u ts [] of
        (w1, ResultsJSON code rs) \<Rightarrow> (w1, ResultsJSON code (acc @ rs))
      | (w1, ErrorJSON code m) \<Rightarrow> (w1, ErrorJSON code m))"
proof (induction ts arbitrary: w acc)
  case Nil
  then show ?case by simp
next
  case (Cons t ts)
  obtain n r where tr: "TranslateJSON svc (engine w) (calls w) data src t = (n, r)"
    by (cases "TranslateJSON svc (engine w) (calls w) data src t")
  show ?case
  proof (cases r)
    case (Inl err)
    then show ?thesis using tr by simp
  next
    case (Inr d)
    obtain w' r' where sv: "SaveTranslation (w\<lparr>calls := n\<rparr>) c t stage d u = (w', r')"
      by (cases "SaveTranslation (w\<lparr>calls := n\<rparr>) c t stage d u")
    show ?thesis
    proof (cases r')
      case (Inl err)
      then show ?thesis using tr Inr sv by simp
    next
      case inr: (Inr e)
      show ?thesis
        using tr Inr sv inr Cons.IH [of w' "acc @ [e]"] Cons.IH [of w' "[e]"]
        by (simp split: prod.splits response.splits)
    qed
  qed
qed

lemma BackfillLoop_append:
  "BackfillLoop w svc data c src stage u (xs @ ys) acc =
     (case BackfillLoop w svc data c src stage u xs acc of
        (w1, ResultsJSON code rs) \<Rightarrow> BackfillLoop w1 svc data c src stage u ys rs
      | (w1, ErrorJSON code m) \<Rightarrow> (w1, ErrorJSON code m))"
proof (induction xs arbitrary: w acc)
  case Nil
  then show ?case by simp
next
  case (Cons t ts)
  obtain n r where tr: "TranslateJSON svc (engine w) (calls w) data src t = (n, r)"
    by (cases "TranslateJSON svc (engine w) (calls w) data src t")
  show ?case
  proof (cases r)
    case (Inl err)
    then show ?thesis using tr by simp
  next
    case (Inr d)
    obtain w' r' where sv: "SaveTranslation (w\<lparr>calls := n\<rparr>) c t stage d u = (w', r')"
      by (cases "SaveTranslation (w\<lparr>calls := n\<rparr>) c t stage d u")
    show ?thesis
    proof (cases r')
      case (Inl err)
      then show ?thesis using tr Inr sv by simp
    next
      case inr: (Inr e)
      show ?thesis
        using tr Inr sv inr Cons.IH [of w' "acc @ [e]"] by simp
    qed
  qed
qed

lemma BackfillLoop_failing_step:
  assumes "BackfillLoop w svc data c src stage u [L] acc = (w2, ErrorJSON code msg)"
  shows "code = 500
     \<and> (msg = ''Failed to save translation for '' @ L
         \<or> (\<exists>e. msg = ''Failed to translate to '' @ L @ '': '' @ e))
     \<and> translation_versions w2 = translation_versions w"
proof -
  obtain n r where tr: "TranslateJSON svc (engine w) (calls w) data src L = (n, r)"
    by (cases "TranslateJSON svc (engine w) (calls w) data src L")
  show ?thesis
  proof (cases r)
    case (Inl err)
    then show ?thesis using tr assms by auto
  next
    case (Inr d)
    obtain w' r' where sv: "SaveTranslation (w\<lparr>calls := n\<rparr>) c L stage d u = (w', r')"
      by (cases "SaveTranslation (w\<lparr>calls := n\<rparr>) c L stage d u")
    show ?thesis
    proof (cases r')
      case (Inl err)
      then have "w' = tick (tick (w\<lparr>calls := n\<rparr>))"
        using SaveTranslation_failure_rows sv by blast
      then show ?thesis using tr Inr sv Inl assms by (auto simp: tick_def)
    next
      case inr: (Inr e)
      then show ?thesis using tr Inr sv assms by simp
    qed
  qed
qed

subsection \<open>A run of the loop that succeeds\<close>

text \<open>
  When the loop over the locales \<open>pre\<close> succeeds and no store operation fails while it
  runs: the saved rows come in the order of \<open>pre\<close>; each carries the payload that
  \<^const>\<open>TranslateJSON\<close> returned for its locale; the row saved at the last occurrence of a
  locale is the version-2 row of its key afterwards; rows of other keys are found as before.
\<close>

lemma quiet_later:
  "quiet w t \<Longrightarrow> db_fails w' = db_fails w \<Longrightarrow> clock w \<le> clock w' \<Longrightarrow> quiet w' t"
  by (auto simp: quiet_def)

lemma BackfillLoop_success:
  assumes "BackfillLoop w svc data c src stage u pre [] = (w1, ResultsJSON code saved)"
    and "quiet w (clock w1)" and "primary_keys_ok (translation_versions w)"
  shows "code = 200 \<and> map Locale saved = pre
     \<and> (\<forall>i<length pre. pre ! i \<notin> set (drop (Suc i) pre) \<longrightarrow>
           find (key_version c (pre ! i) stage 2) (translation_versions w1) = Some (saved ! i))
     \<and> (\<forall>i<length pre. \<exists>n n'.
           TranslateJSON svc (engine w) n data src (pre ! i) = (n', Inr (Data (saved ! i))))
     \<and> (\<forall>P. (\<forall>x. P x \<longrightarrow> Version x \<le> 2
                  \<and> \<not> (ComponentID x = c \<and> Stage x = stage \<and> Locale x \<in> set pre)) \<longrightarrow>
           find P (translation_versions w1) = find P (translation_versions w))
     \<and> primary_keys_ok (translation_versions w1)"
  using assms
proof (induction pre arbitrary: w saved)
  case Nil
  then show ?case by auto
next
  case (Cons t ts)
  from BackfillLoop_Cons_success [OF Cons.prems(1)]
  obtain n d w' e where st: "TranslateJSON svc (engine w) (calls w) data src t = (n, Inr d)"
     "SaveTranslation (w\<lparr>calls := n\<rparr>) c t stage d u = (w', Inr e)"
     "BackfillLoop w' svc data c src stage u ts ([] @ [e]) = (w1, ResultsJSON code saved)"
    by blast
  let ?wn = "w\<lparr>calls := n\<rparr>"
  obtain rs where rs: "saved = e # rs"
     "BackfillLoop w' svc data c src stage u ts [] = (w1, ResultsJSON code rs)"
    using st(3) BackfillLoop_acc [of w' svc data c src stage u ts "[e]"]
    by (auto split: prod.splits response.splits)
  have env': "db_fails w' = db_fails w" "engine w' = engine w" "clock w \<le> clock w'"
    using SaveTranslation_env [of ?wn c t stage d u] Save_clock_ge2 [of ?wn c t stage d u] st(2)
    by simp_all
  have le: "clock w' \<le> clock w1"
    using BackfillLoop_env [of w' svc data c src stage u ts "[]"] rs(2) by simp
  have qn: "quiet ?wn (clock (fst (SaveTranslation ?wn c t stage d u)))"
    using Cons.prems(2) le st(2) by (auto simp: quiet_def)
  have pkn: "primary_keys_ok (translation_versions ?wn)" using Cons.prems(3) by simp
  from SaveTranslation_quiet [OF Save_quiet_window [OF qn pkn] pkn, of c t stage d u] st(2)
  have sv: "key_version c t stage 2 e" "Data e = d"
      "find (key_version c t stage 2) (translation_versions w') = Some e"
      "\<forall>P. (\<forall>x. P x \<longrightarrow> \<not> same_key c t stage x \<and> Version x \<le> 2) \<longrightarrow>
            find P (translation_versions w') = find P (translation_versions w)"
      "primary_keys_ok (translation_versions w')"
    by auto
  have q': "quiet w' (clock w1)"
    using Cons.prems(2) env'(1,3) by (rule quiet_later)
  from Cons.IH [OF rs(2) q' sv(5)]
  have ih: "code = 200" "map Locale rs = ts"
     "\<forall>i<length ts. ts ! i \<notin> set (drop (Suc i) ts) \<longrightarrow>
           find (key_version c (ts ! i) stage 2) (translation_versions w1) = Some (rs ! i)"
     "\<forall>i<length ts. \<exists>n n'.
           TranslateJSON svc (engine w') n data src (ts ! i) = (n', Inr (Data (rs ! i)))"
     "\<forall>P. (\<forall>x. P x \<longrightarrow> Version x \<le> 2
                  \<and> \<not> (ComponentID x = c \<and> Stage x = stage \<and> Locale x \<in> set ts)) \<longrightarrow>
           find P (translation_versions w1) = find P (translation_versions w')"
     "primary_keys_ok (translation_versions w1)"
    by auto
  have locale_e: "Locale e = t" using sv(1) by (simp add: key_version_def)
  have order: "map Locale saved = t # ts" using rs(1) ih(2) locale_e by simp
  have persisted: "\<forall>i<length (t # ts). (t # ts) ! i \<notin> set (drop (Suc i) (t # ts)) \<longrightarrow>
           find (key_version c ((t # ts) ! i) stage 2) (translation_versions w1) = Some (saved ! i)"
  proof (intro allI impI)
    fix i assume i: "i < length (t # ts)" "(t # ts) ! i \<notin> set (drop (Suc i) (t # ts))"
    show "find (key_version c ((t # ts) ! i) stage 2) (translation_versions w1) = Some (saved ! i)"
    proof (cases i)
      case 0
      then have "t \<notin> set ts" using i(2) by simp
      then have "\<forall>x. key_version c t stage 2 x \<longrightarrow> Version x \<le> 2
                  \<and> \<not> (ComponentID x = c \<and> Stage x = stage \<and> Locale x \<in> set ts)"
        by (simp add: key_version_def)
      then have "find (key_version c t stage 2) (translation_versions w1)
          = find (key_version c t stage 2) (translation_versions w')"
        using ih(5) [THEN spec, of "key_version c t stage 2"] by (rule rev_mp)
      then show ?thesis using 0 sv(3) rs(1) by simp
    next
      case (Suc j)
      then show ?thesis using i ih(3) rs(1) by simp
    qed
  qed
  have translated: "\<forall>i<length (t # ts). \<exists>n n'.
           TranslateJSON svc (engine w) n data src ((t # ts) ! i) = (n', Inr (Data (saved ! i)))"
  proof (intro allI impI)
    fix i assume i: "i < length (t # ts)"
    show "\<exists>n n'. TranslateJSON svc (engine w) n data src ((t # ts) ! i) = (n', Inr (Data (saved ! i)))"
    proof (cases i)
      case 0
      then show ?thesis using st(1) sv(2) rs(1) by auto
    next
      case (Suc j)
      then show ?thesis using i ih(4) rs(1) env'(2) by simp
    qed
  qed
  have frame: "\<forall>P. (\<forall>x. P x \<longrightarrow> Version x \<le> 2
                  \<and> \<not> (ComponentID x = c \<and> Stage x = stage \<and> Locale x \<in> set (t # ts))) \<longrightarrow>
           find P (translation_versions w1) = find P (translation_versions w)"
  proof (intro allI impI)
    fix P :: "TranslationVersion \<Rightarrow> bool"
    assume P: "\<forall>x. P x \<longrightarrow> Version x \<le> 2
                  \<and> \<not> (ComponentID x = c \<and> Stage x = stage \<and> Locale x \<in> set (t # ts))"
    have "\<forall>x. P x \<longrightarrow> Version x \<le> 2
                  \<and> \<not> (ComponentID x = c \<and> Stage x = stage \<and> Locale x \<in> set ts)"
      using P by simp
    then have "find P (translation_versions w1) = find P (translation_versions w')"
      using ih(5) [THEN spec, of P] by (rule rev_mp)
    moreover have "\<forall>x. P x \<longrightarrow> \<not> same_key c t stage x \<and> Version x \<le> 2"
      using P by (auto simp: same_key_def)
    then have "find P (translation_versions w') = find P (translation_versions w)"
      using sv(4) [THEN spec, of P] by (rule rev_mp)
    ultimately show "find P (translation_versions w1) = find P (translation_versions w)" by simp
  qed
  show ?case
    using ih(1) order persisted translated frame ih(6) by (intro conjI)
qed

text \<open>
  Claim C5. Let the handler have loaded its source, let the loop succeed on the target
  locales \<open>pre\<close> with the rows \<open>saved\<close>, and let no store operation fail up to there.
  Then \<open>saved\<close> lists one row per locale of \<open>pre\<close>, in order, each with the payload
  translated for its locale. If \<open>pre\<close> is the whole list of targets, the handler answers
  200 with \<open>saved\<close>. If the targets are \<open>pre\<close>, then \<open>L\<close>, then \<open>post\<close>, and the step
  at \<open>L\<close> fails (its translation or its save), the handler answers 500 with a message that
  names \<open>L\<close>; the world it leaves is the one the failed step left, whatever \<open>post\<close> is (no
  locale after \<open>L\<close> is translated or saved); the failed step wrote no row; and for each
  locale of \<open>pre\<close> the version-2 row of its key is still the row saved for it (for a locale
  that occurs twice, the row of its last occurrence).
\<close>

theorem Backfill_stops_at_first_failure:
  assumes source: "BackfillSource w componentID req = (w0, Inr (svc, source))"
    and prefix: "BackfillLoop w0 svc (Data source) componentID (SourceLocale req) (Stage_of req)
                   userID pre [] = (w1, ResultsJSON code saved)"
    and quiet: "quiet w0 (clock w1)"
    and pk: "primary_keys_ok (translation_versions w0)"
  shows "map Locale saved = pre
     \<and> (\<forall>i<length pre. \<exists>n n'.
           TranslateJSON svc (engine w0) n (Data source) (SourceLocale req) (pre ! i)
             = (n', Inr (Data (saved ! i))))
     \<and> (TargetLocales req = pre \<longrightarrow>
           BackfillTranslations w componentID req userID = (w1, ResultsJSON 200 saved))
     \<and> (\<forall>L post w2 code' msg.
           TargetLocales req = pre @ L # post
           \<and> BackfillLoop w1 svc (Data source) componentID (SourceLocale req) (Stage_of req)
                 userID [L] [] = (w2, ErrorJSON code' msg) \<longrightarrow>
           BackfillTranslations w componentID req userID = (w2, ErrorJSON 500 msg)
           \<and> (msg = ''Failed to save translation for '' @ L
                \<or> (\<exists>e. msg = ''Failed to translate to '' @ L @ '': '' @ e))
           \<and> translation_versions w2 = translation_versions w1
           \<and> (\<forall>i<length pre. pre ! i \<notin> set (drop (Suc i) pre) \<longrightarrow>
                 find (key_version componentID (pre ! i) (Stage_of req) 2) (translation_versions w2)
                   = Some (saved ! i)))"
proof -
  let ?loop = "BackfillLoop w0 svc (Data source) componentID (SourceLocale req) (Stage_of req) userID"
  let ?loop1 = "BackfillLoop w1 svc (Data source) componentID (SourceLocale req) (Stage_of req) userID"
  note facts = BackfillLoop_success [OF prefix quiet pk]
  have ok1: "code = 200"
    by (rule facts [THEN conjunct1])
  have ok2: "map Locale saved = pre"
    by (rule facts [THEN conjunct2, THEN conjunct1])
  have ok3: "\<forall>i<length pre. pre ! i \<notin> set (drop (Suc i) pre) \<longrightarrow>
       find (key_version componentID (pre ! i) (Stage_of req) 2) (translation_versions w1) = Some (saved ! i)"
    by (rule facts [THEN conjunct2, THEN conjunct2, THEN conjunct1])
  have ok4: "\<forall>i<length pre. \<exists>n n'.
       TranslateJSON svc (engine w0) n (Data source) (SourceLocale req) (pre ! i) = (n', Inr (Data (saved ! i)))"
    by (rule facts [THEN conjunct2, THEN conjunct2, THEN conjunct2, THEN conjunct1])
  have run: "BackfillTranslations w componentID req userID = ?loop (TargetLocales req) []"
    using source by (simp add: BackfillTranslations_def)
  have success: "TargetLocales req = pre \<longrightarrow>
           BackfillTranslations w componentID req userID = (w1, ResultsJSON 200 saved)"
    using run prefix ok1 by simp
  have failure: "BackfillTranslations w componentID req userID = (w2, ErrorJSON 500 msg)
           \<and> (msg = ''Failed to save translation for '' @ L
                \<or> (\<exists>e. msg = ''Failed to translate to '' @ L @ '': '' @ e))
           \<and> translation_versions w2 = translation_versions w1
           \<and> (\<forall>i<length pre. pre ! i \<notin> set (drop (Suc i) pre) \<longrightarrow>
                 find (key_version componentID (pre ! i) (Stage_of req) 2) (translation_versions w2)
                   = Some (saved ! i))"
    if targets: "TargetLocales req = pre @ L # post"
      and step: "?loop1 [L] [] = (w2, ErrorJSON code' msg)"
    for L post w2 code' msg
  proof -
    note stepfacts = BackfillLoop_failing_step [OF step]
    have f1: "code' = 500"
      by (rule stepfacts [THEN conjunct1])
    have f2: "msg = ''Failed to save translation for '' @ L \<or> (\<exists>e. msg = ''Failed to translate to '' @ L @ '': '' @ e)"
      by (rule stepfacts [THEN conjunct2, THEN conjunct1])
    have f3: "translation_versions w2 = translation_versions w1"
      by (rule stepfacts [THEN conjunct2, THEN conjunct2])
    have "?loop1 [L] saved = (w2, ErrorJSON code' msg)"
      using BackfillLoop_acc [of w1 svc "Data source" componentID "SourceLocale req" "Stage_of req" userID "[L]" saved] step
      by simp
    then have "?loop1 ([L] @ post) saved = (w2, ErrorJSON code' msg)"
      by (simp only: BackfillLoop_append prod.case response.case)
    then have "?loop (pre @ L # post) [] = (w2, ErrorJSON code' msg)"
      using prefix by (simp only: BackfillLoop_append prod.case response.case append.simps)
    then show ?thesis
      using run targets f1 f2 f3 ok3 by simp
  qed
  show ?thesis
    using ok2 ok4 success failure by blast
qed

lemmas eval_defs = BackfillTranslations_def BackfillSource_def GetTranslation_def db_First_def db_fault_def tick_def
   cache_Get_def cache_Set_def cache_Delete_def example_world_def example_rows_def example_engine_def
   active_key_version_def key_version_def TranslateJSON_def Translate_def TrimSpace_def isSpace_def
   PreserveTemplateValues_def ExtractTemplateValues_def HasPrefix_def SaveTranslation_def db_Create_def db_Save_def
   BeforeCreate_def column_defaults_def uuid_Nil_def uuid_New_def CleanupOldVersions_def Let_def


theorem Backfill_stops_at_first_failure_witness:
  "snd (BackfillTranslations example_world 7
          \<lparr>SourceLocale = ''en'', TargetLocales = [''id'', ''es'', ''fr''], Stage_of = ''draft''\<rparr> 9)
     = ErrorJSON 500
         ''Failed to translate to es: error translating key title: OpenAI API error: quota exceeded''
   \<and> map_option Data
        (find (key_version 7 ''id'' ''draft'' 2)
           (translation_versions
              (fst (BackfillTranslations example_world 7
                     \<lparr>SourceLocale = ''en'', TargetLocales = [''id'', ''es'', ''fr''],
                        Stage_of = ''draft''\<rparr> 9))))
     = Some [(''title'', JString ''id: Hi [name]!'')]
   \<and> map Locale
        (translation_versions
           (fst (BackfillTranslations example_world 7
                  \<lparr>SourceLocale = ''en'', TargetLocales = [''id'', ''es'', ''fr''],
                     Stage_of = ''draft''\<rparr> 9)))
     = [''en'', ''en'', ''id'', ''id'']"
proof -
  let ?req = "\<lparr>SourceLocale = ''en'', TargetLocales = [''id'', ''es'', ''fr''], Stage_of = ''draft''\<rparr>"
  let ?svc = "\<lparr>APIKey = ''sk''\<rparr>"
  let ?source = "\<lparr>ID = 1, ComponentID = 7, Locale = ''en'', Stage = ''draft'', Version = 2,
       Data = [(''title'', JString ''Hi [name]!'')], IsActive = True, CreatedBy = 9,
       UpdatedBy = 9\<rparr>"
  let ?saved = "\<lparr>ID = 3, ComponentID = 7, Locale = ''id'', Stage = ''draft'', Version = 2,
       Data = [(''title'', JString ''id: Hi [name]!'')], IsActive = True, CreatedBy = 9,
       UpdatedBy = 9\<rparr>"
  let ?msg = "''Failed to translate to es: error translating key title: OpenAI API error: quota exceeded''"
  define w0 where "w0 = fst (BackfillSource example_world 7 ?req)"
  define w1 where "w1 = fst (BackfillLoop w0 ?svc (Data ?source) 7 ''en'' ''draft'' 9 [''id''] [])"
  define w2 where "w2 = fst (BackfillLoop w1 ?svc (Data ?source) 7 ''en'' ''draft'' 9 [''es''] [])"
  have src: "BackfillSource example_world 7 ?req = (w0, Inr (?svc, ?source))"
    unfolding w0_def by (simp add: eval_defs)
  have prefix: "BackfillLoop w0 ?svc (Data ?source) 7 (SourceLocale ?req) (Stage_of ?req) 9 [''id''] []
      = (w1, ResultsJSON 200 [?saved])"
    unfolding w1_def w0_def by (simp add: eval_defs)
  have q: "quiet w0 (clock w1)"
    unfolding w1_def w0_def by (simp add: quiet_def eval_defs)
  have pk: "primary_keys_ok (translation_versions w0)"
    unfolding w0_def by (simp add: primary_keys_ok_def eval_defs)
  have step: "BackfillLoop w1 ?svc (Data ?source) 7 (SourceLocale ?req) (Stage_of ?req) 9 [''es''] []
      = (w2, ErrorJSON 500 ?msg)"
    unfolding w2_def w1_def w0_def by (simp add: eval_defs)
  have rows: "map Locale (translation_versions w1) = [''en'', ''en'', ''id'', ''id'']"
    unfolding w1_def w0_def by (simp add: eval_defs)
  have targets: "TargetLocales ?req = [''id''] @ ''es'' # [''fr'']"
    by simp
  note inst = Backfill_stops_at_first_failure [OF src prefix q pk, THEN conjunct2, THEN conjunct2, THEN conjunct2,
      THEN spec, THEN spec, THEN spec, THEN spec, THEN spec, THEN mp, OF conjI [OF targets step]]
  have res: "BackfillTranslations example_world 7 ?req 9 = (w2, ErrorJSON 500 ?msg)"
    by (rule inst [THEN conjunct1])
  have same: "translation_versions w2 = translation_versions w1"
    by (rule inst [THEN conjunct2, THEN conjunct2, THEN conjunct1])
  have kept: "find (key_version 7 ''id'' ''draft'' 2) (translation_versions w2) = Some ?saved"
    using inst [THEN conjunct2, THEN conjunct2, THEN conjunct2, THEN spec, of 0] by simp
  show ?thesis
    using kept rows by (simp add: res same)
qed

end
